theory Spec2Isabelle
  imports Complex_Main "HOL-Library.Product_Lexorder"
begin

section \<open>QActor: the estimator state\<close>

text \<open>
  The embedding follows \<^verbatim>\<open>src/qactor.py\<close>. Python floats are idealised as
  the real numbers: values are computed exactly, so rounding, infinities and NaN are
  outside the model. Every exception the code can raise on real-valued inputs is a
  value of \<open>error\<close>; the OverflowError that a float power raises when its result is out
  of range is modelled in \<open>time_to_goal_fl\<close> below.
\<close>

datatype error = KeyError | ZeroDivisionError | ValueError | IndexError | OverflowError

text \<open>
  The seven dictionaries of a \<^verbatim>\<open>QActor\<close> object, keyed by variable name.
\<close>

record actor =
  current_x :: "string \<rightharpoonup> real"
  current_v :: "string \<rightharpoonup> real"
  current_a :: "string \<rightharpoonup> real"
  max_v_pos :: "string \<rightharpoonup> real"
  max_v_neg :: "string \<rightharpoonup> real"
  max_a_pos :: "string \<rightharpoonup> real"
  max_a_neg :: "string \<rightharpoonup> real"

text \<open>\<^verbatim>\<open>reset\<close>: every dictionary is replaced by an empty one.\<close>

definition reset :: "actor \<Rightarrow> actor" where
  "reset s = \<lparr>current_x = Map.empty, current_v = Map.empty, current_a = Map.empty,
              max_v_pos = Map.empty, max_v_neg = Map.empty,
              max_a_pos = Map.empty, max_a_neg = Map.empty\<rparr>"

text \<open>
  \<^verbatim>\<open>__init__\<close> stores the model and calls \<^verbatim>\<open>reset\<close>; the model is passed to
  \<open>act\<close> as an argument, so a new actor is the state after a reset.
\<close>

definition init :: actor where
  "init = \<lparr>current_x = Map.empty, current_v = Map.empty, current_a = Map.empty,
           max_v_pos = Map.empty, max_v_neg = Map.empty,
           max_a_pos = Map.empty, max_a_neg = Map.empty\<rparr>"

text \<open>\<^verbatim>\<open>restart\<close>: only the three dictionaries of the current state are replaced.\<close>

definition restart :: "actor \<Rightarrow> actor" where
  "restart s = s\<lparr>current_x := Map.empty, current_v := Map.empty, current_a := Map.empty\<rparr>"

text \<open>
  Lines 55-59 and 68-72 of \<^verbatim>\<open>observe\<close>: the update of one dictionary of extrema
  with the magnitude of a new sample.
\<close>

definition update_max :: "(string \<rightharpoonup> real) \<Rightarrow> string \<Rightarrow> real \<Rightarrow> (string \<rightharpoonup> real)" where
  "update_max max_m variable v =
     (case max_m variable of
        Some m \<Rightarrow> (if \<bar>v\<bar> > m then max_m(variable \<mapsto> \<bar>v\<bar>) else max_m)
      | None \<Rightarrow> max_m(variable \<mapsto> \<bar>v\<bar>))"

text \<open>
  One iteration of the loop of \<^verbatim>\<open>observe\<close>. The only operation that can raise is
  the division of line 42, which comes before every assignment of the iteration; the
  division of line 49 is reached only after line 42 has succeeded with the same \<open>dt\<close>.
\<close>

definition observe_var :: "actor \<Rightarrow> string \<Rightarrow> real \<Rightarrow> real \<Rightarrow> error + actor" where
  "observe_var s variable x dt =
     (case current_x s variable of
        None \<Rightarrow> Inr (s\<lparr>current_x := (current_x s)(variable \<mapsto> x)\<rparr>)
      | Some x0 \<Rightarrow>
          if dt = 0 then Inl ZeroDivisionError
          else
            let v = (x - x0) / dt;
                s1 = s\<lparr>current_x := (current_x s)(variable \<mapsto> x)\<rparr>;
                a = (case current_v s1 variable of
                       Some v0 \<Rightarrow> Some ((v - v0) / dt)
                     | None \<Rightarrow> None);
                s2 = s1\<lparr>current_v := (current_v s1)(variable \<mapsto> v)\<rparr>;
                s3 = (if v \<noteq> 0 then
                        (if v > 0 then s2\<lparr>max_v_pos := update_max (max_v_pos s2) variable v\<rparr>
                         else s2\<lparr>max_v_neg := update_max (max_v_neg s2) variable v\<rparr>)
                      else s2)
            in case a of
                 None \<Rightarrow> Inr s3
               | Some a' \<Rightarrow>
                   let s4 = s3\<lparr>current_a := (current_a s3)(variable \<mapsto> a')\<rparr>
                   in Inr (if a' \<noteq> 0 then
                             (if a' > 0 then s4\<lparr>max_a_pos := update_max (max_a_pos s4) variable a'\<rparr>
                              else s4\<lparr>max_a_neg := update_max (max_a_neg s4) variable a'\<rparr>)
                           else s4))"

text \<open>
  \<^verbatim>\<open>observe\<close>: the dictionary \<open>numerical_state\<close> is the list of its items in
  iteration order (a dictionary has distinct keys; nothing below needs that). The
  object is mutated in place, so the result is the exception raised, if any, together
  with the state the object is left in.
\<close>

fun observe :: "actor \<Rightarrow> (string \<times> real) list \<Rightarrow> real \<Rightarrow> error option \<times> actor" where
  "observe s [] dt = (None, s)"
| "observe s ((variable, x) # rest) dt =
     (case observe_var s variable x dt of
        Inl e \<Rightarrow> (Some e, s)
      | Inr s' \<Rightarrow> observe s' rest dt)"

section \<open>The estimated time of arrival\<close>

text \<open>
  \<^verbatim>\<open>_time_to_goal\<close>. \<^verbatim>\<open>math.sqrt\<close> raises ValueError on a negative argument and
  every division raises ZeroDivisionError on a zero divisor; the checks stand where
  the source evaluates the operation. The parameter \<open>dist\<close> of the source is
  \<open>dist0\<close> here. This is the solver in exact arithmetic, where no power is out of
  range; \<open>time_to_goal_fl\<close> below adds the OverflowError of the float powers.
\<close>

function time_to_goal :: "real \<Rightarrow> real \<Rightarrow> real \<Rightarrow> real \<Rightarrow> real \<Rightarrow> error + real" where
  "time_to_goal dist0 v0 v1 acc dcc =
     (if v0 \<ge> 0 then
        (if v0\<^sup>2 + 2 * acc * dist0 < 0 then Inl ValueError
         else
           let vx = sqrt (v0\<^sup>2 + 2 * acc * dist0) in
           if vx \<le> v1 then
             (if acc = 0 then Inl ZeroDivisionError
              else Inr (0 + (vx - v0) / acc))
           else
             (if acc = 0 then Inl ZeroDivisionError
              else
                let t = 0 + (v1 - v0) / acc;
                    s = (v1\<^sup>2 - v0\<^sup>2) / (2 * acc)
                in if v1 = 0 then Inl ZeroDivisionError
                   else Inr (t + (dist0 - s) / v1)))
      else
        (if acc = 0 then Inl ZeroDivisionError
         else
           let s = v0\<^sup>2 / (2 * acc);
               t = 0 + - v0 / acc
           in case time_to_goal (dist0 + s) 0 v1 acc dcc of
                Inl e \<Rightarrow> Inl e
              | Inr t' \<Rightarrow> Inr (t + t')))"
  by pat_completeness auto
termination
  by (relation "measure (\<lambda>(dist0, v0, v1, acc, dcc). if v0 < 0 then 1 else 0)") auto

text \<open>
  A float power \<^verbatim>\<open>x**2\<close> raises OverflowError when its result is out of the range
  of the doubles. With correct rounding that is when the exact square is at least
  \<open>2 ^ 1024 - 2 ^ 970\<close>, the least magnitude that rounds to infinity.
\<close>

definition double_overflows :: "real \<Rightarrow> bool" where
  "double_overflows x = (2 ^ 1024 - 2 ^ 970 \<le> \<bar>x\<bar>)"

text \<open>
  \<^verbatim>\<open>_time_to_goal\<close> with the exceptions of float arithmetic and with its
  invocations. The powers of lines 147, 152 and 158 raise OverflowError when \<open>ovf\<close>
  holds of their exact value; \<open>ovf\<close> is a parameter, because the behaviour at the
  edge of the range depends on rounding (\<open>double_overflows\<close> is the predicate for
  correctly rounded powers, and \<open>\<lambda>x. False\<close> gives exact arithmetic). At line 158
  the power is evaluated before the division, so an overflow wins over a zero divisor.
  Values are still computed exactly. The second component lists the invocations that
  the call causes, in call order and with their arguments: the call itself and then
  those of the recursive call of line 160, when that line is reached.
\<close>

function time_to_goal_fl ::
  "(real \<Rightarrow> bool) \<Rightarrow> real \<Rightarrow> real \<Rightarrow> real \<Rightarrow> real \<Rightarrow> real \<Rightarrow>
   (error + real) \<times> (real \<times> real \<times> real \<times> real \<times> real) list" where
  "time_to_goal_fl ovf dist0 v0 v1 acc dcc =
     (if v0 \<ge> 0 then
        ((if ovf (v0\<^sup>2) then Inl OverflowError
          else if v0\<^sup>2 + 2 * acc * dist0 < 0 then Inl ValueError
          else
            let vx = sqrt (v0\<^sup>2 + 2 * acc * dist0) in
            if vx \<le> v1 then
              (if acc = 0 then Inl ZeroDivisionError
               else Inr (0 + (vx - v0) / acc))
            else
              (if acc = 0 then Inl ZeroDivisionError
               else if ovf (v1\<^sup>2) then Inl OverflowError
               else
                 let t = 0 + (v1 - v0) / acc;
                     s = (v1\<^sup>2 - v0\<^sup>2) / (2 * acc)
                 in if v1 = 0 then Inl ZeroDivisionError
                    else Inr (t + (dist0 - s) / v1))),
         [(dist0, v0, v1, acc, dcc)])
      else
        (if ovf (v0\<^sup>2) then (Inl OverflowError, [(dist0, v0, v1, acc, dcc)])
         else if acc = 0 then (Inl ZeroDivisionError, [(dist0, v0, v1, acc, dcc)])
         else
           let s = v0\<^sup>2 / (2 * acc);
               t = 0 + - v0 / acc
           in case time_to_goal_fl ovf (dist0 + s) 0 v1 acc dcc of
                (r, calls) \<Rightarrow>
                  ((case r of Inl e \<Rightarrow> Inl e | Inr t' \<Rightarrow> Inr (t + t')),
                   (dist0, v0, v1, acc, dcc) # calls)))"
  by pat_completeness auto
termination
  by (relation "measure (\<lambda>(ovf, dist0, v0, v1, acc, dcc). if v0 < 0 then 1 else 0)") auto

text \<open>The conditional expression \<^verbatim>\<open>m[k] if k in m else d\<close> of lines 114-118.\<close>

definition get_or :: "('k \<rightharpoonup> 'v) \<Rightarrow> 'k \<Rightarrow> 'v \<Rightarrow> 'v" where
  "get_or m k d = (case m k of Some v \<Rightarrow> v | None \<Rightarrow> d)"

text \<open>\<^verbatim>\<open>_eta\<close>: line 113 raises KeyError for a variable without a position.\<close>

definition eta :: "actor \<Rightarrow> string \<Rightarrow> real \<Rightarrow> error + real" where
  "eta s variable x1 =
     (case current_x s variable of
        None \<Rightarrow> Inl KeyError
      | Some x \<Rightarrow>
          let v0 = get_or (current_v s) variable 0;
              v1_pos = get_or (max_v_pos s) variable 1;
              v1_neg = get_or (max_v_neg s) variable 1;
              acc = get_or (max_a_pos s) variable 1;
              dcc = get_or (max_a_neg s) variable 1;
              dist0 = x1 - x
          in if dist0 > 0 then time_to_goal dist0 v0 v1_pos acc dcc
             else if dist0 < 0 then time_to_goal (- dist0) (- v0) v1_neg dcc acc
             else Inr 0)"

section \<open>Action selection\<close>

text \<open>
  A qualitative action is a dictionary from control names to directions, kept as the
  list of its items in iteration order. The qualitative model \<^verbatim>\<open>QModel\<close> is an
  interface whose two methods are overridden by each concrete model; here it is a pair
  of pure functions, both called with the dictionary \<open>current_x\<close>.
\<close>

type_synonym action = "(string \<times> int) list"

record qmodel =
  actions :: "(string \<rightharpoonup> real) \<Rightarrow> action list"
  effect :: "action \<Rightarrow> (string \<rightharpoonup> real) \<Rightarrow> (string \<rightharpoonup> int)"

text \<open>
  \<^verbatim>\<open>math.copysign(1, d)\<close> reads the sign bit of \<open>d\<close>. For \<open>d \<noteq> 0\<close> that is the
  sign of the real number. A floating-point zero carries a sign bit that its real value
  does not determine (\<^verbatim>\<open>0.0 - 0.0\<close> is \<^verbatim>\<open>0.0\<close>, \<^verbatim>\<open>-0.0 - 0.0\<close> is \<^verbatim>\<open>-0.0\<close>), so
  the result at zero is the parameter \<open>zs\<close>: \<open>1\<close> or \<open>-1\<close> in the source.
\<close>

definition copysign_one :: "real \<Rightarrow> real \<Rightarrow> real" where
  "copysign_one zs d = (if d > 0 then 1 else if d < 0 then - 1 else zs)"

text \<open>
  The inner loop of \<^verbatim>\<open>act\<close> (lines 87-95) over the items of \<open>target\<close>, with the
  running value of \<open>action_vote\<close>. Lines 88 and 92 raise KeyError for a variable that
  has no position or no effect; an exception of \<open>_eta\<close> propagates. \<open>zsign\<close> gives,
  for each variable, the sign bit of a zero difference.
\<close>

fun action_vote ::
  "actor \<Rightarrow> (string \<rightharpoonup> int) \<Rightarrow> (string \<Rightarrow> real) \<Rightarrow> (string \<times> real) list \<Rightarrow> real \<Rightarrow> error + real" where
  "action_vote s action_effect zsign [] vote = Inr vote"
| "action_vote s action_effect zsign ((variable, target_value) # rest) vote =
     (case current_x s variable of
        None \<Rightarrow> Inl KeyError
      | Some current_value \<Rightarrow>
          let desired_direction = copysign_one (zsign variable) (target_value - current_value)
          in case action_effect variable of
               None \<Rightarrow> Inl KeyError
             | Some e \<Rightarrow>
                 let action_direction = (if \<bar>e\<bar> \<le> 1 then e else 0)
                 in case eta s variable target_value of
                      Inl err \<Rightarrow> Inl err
                    | Inr eta_value \<Rightarrow>
                        action_vote s action_effect zsign rest
                          (vote + (desired_direction * real_of_int action_direction) * eta_value))"

text \<open>The loop of lines 98-100 over the items of an action.\<close>

fun action_rank :: "action \<Rightarrow> int \<Rightarrow> int" where
  "action_rank [] rank = rank"
| "action_rank ((variable, d) # rest) rank =
     action_rank rest (rank + (if \<bar>d\<bar> = 1 then 1 else 0))"

text \<open>The outer loop of \<^verbatim>\<open>act\<close> (lines 82-103), appending to the list \<open>votes\<close>.\<close>

fun act_votes ::
  "actor \<Rightarrow> qmodel \<Rightarrow> (string \<Rightarrow> real) \<Rightarrow> (string \<times> real) list \<Rightarrow> action list \<Rightarrow>
   (action \<times> real \<times> int) list \<Rightarrow> error + (action \<times> real \<times> int) list" where
  "act_votes s model zsign target [] votes = Inr votes"
| "act_votes s model zsign target (action # rest) votes =
     (case action_vote s (effect model action (current_x s)) zsign target 0 of
        Inl e \<Rightarrow> Inl e
      | Inr vote \<Rightarrow>
          act_votes s model zsign target rest (votes @ [(action, vote, action_rank action 0)]))"

text \<open>
  \<^verbatim>\<open>sorted(votes, key=..., reverse=True)\<close>: Python's sort is stable, and with
  \<open>reverse=True\<close> it reverses the list, sorts it stably in ascending key order and
  reverses the result, so that equal keys keep their original order. Keys are the pairs
  \<open>(vote, rank)\<close>, compared as Python compares tuples: lexicographically.
\<close>

definition vote_key :: "action \<times> real \<times> int \<Rightarrow> real \<times> int" where
  "vote_key x = (fst (snd x), snd (snd x))"

definition sorted_reverse :: "('a \<Rightarrow> 'k::linorder) \<Rightarrow> 'a list \<Rightarrow> 'a list" where
  "sorted_reverse key xs = rev (sort_key key (rev xs))"

text \<open>
  \<^verbatim>\<open>act\<close>: \<open>votes[0][0]\<close> raises IndexError when the model gave no action. Votes
  are exact reals here. In the code an ETA can overflow to infinity; the vote of an
  action with direction 0 is then NaN (\<^verbatim>\<open>0 * inf\<close>), and \<^verbatim>\<open>sorted\<close> does not
  order keys that hold a NaN. That behaviour is outside this model.
\<close>

definition act :: "actor \<Rightarrow> qmodel \<Rightarrow> (string \<Rightarrow> real) \<Rightarrow> (string \<times> real) list \<Rightarrow> error + action" where
  "act s model zsign target =
     (case act_votes s model zsign target (actions model (current_x s)) [] of
        Inl e \<Rightarrow> Inl e
      | Inr votes \<Rightarrow>
          (case sorted_reverse vote_key votes of
             [] \<Rightarrow> Inl IndexError
           | best # _ \<Rightarrow> Inr (fst best)))"

section \<open>Sequences of calls\<close>

text \<open>
  The calls a client can make on the estimator, and the state after a sequence of
  them. An \<^verbatim>\<open>observe\<close> that raises leaves the object in the state reached so far.
\<close>

datatype call = Observe "(string \<times> real) list" real | Restart | Reset

fun apply_call :: "actor \<Rightarrow> call \<Rightarrow> actor" where
  "apply_call s (Observe numerical_state dt) = snd (observe s numerical_state dt)"
| "apply_call s Restart = restart s"
| "apply_call s Reset = reset s"

fun run_calls :: "actor \<Rightarrow> call list \<Rightarrow> actor" where
  "run_calls s [] = s"
| "run_calls s (c # cs) = run_calls (apply_call s c) cs"

text \<open>
  An entry of a dictionary of extrema has not shrunk: an absent entry may become
  anything, a stored magnitude stays stored and does not decrease.
\<close>

definition grown :: "real option \<Rightarrow> real option \<Rightarrow> bool" where
  "grown old new =
     (case old of
        None \<Rightarrow> True
      | Some m \<Rightarrow> (case new of None \<Rightarrow> False | Some m' \<Rightarrow> m \<le> m'))"

text \<open>
  The two facts about the estimator state that every sequence of calls preserves: a
  recorded velocity lies within the stored extremum of its sign, and stored extrema
  are positive.
\<close>

definition velocity_within :: "actor \<Rightarrow> bool" where
  "velocity_within s =
     (\<forall>k v. current_v s k = Some v \<longrightarrow>
        (0 < v \<longrightarrow> (\<exists>m. max_v_pos s k = Some m \<and> v \<le> m)) \<and>
        (v < 0 \<longrightarrow> (\<exists>m. max_v_neg s k = Some m \<and> \<bar>v\<bar> \<le> m)))"

definition extrema_positive :: "actor \<Rightarrow> bool" where
  "extrema_positive s =
     (\<forall>k m.
        (max_v_pos s k = Some m \<longrightarrow> 0 < m) \<and> (max_v_neg s k = Some m \<longrightarrow> 0 < m) \<and>
        (max_a_pos s k = Some m \<longrightarrow> 0 < m) \<and> (max_a_neg s k = Some m \<longrightarrow> 0 < m))"

section \<open>The vote and the rank as the specification words them\<close>

text \<open>
  The specification's vote of an action with effect vector \<open>E\<close>: the sum over the
  target variables of desired direction times action direction times ETA, where a
  non-deterministic effect (magnitude above 1) counts as direction 0. It is compared
  below with the loop \<open>action_vote\<close> of the source.
\<close>

definition spec_vote ::
  "actor \<Rightarrow> (string \<rightharpoonup> int) \<Rightarrow> (string \<Rightarrow> real) \<Rightarrow> (string \<times> real) list \<Rightarrow> real" where
  "spec_vote s E zsign target =
     (\<Sum>(v, target_v) \<leftarrow> target.
        copysign_one (zsign v) (target_v - the (current_x s v)) *
        real_of_int (if \<bar>the (E v)\<bar> \<le> 1 then the (E v) else 0) *
        projr (eta s v target_v))"


text \<open>
  No step of the vote of an action raises: every target variable has a position and
  an effect, and its ETA is computed.
\<close>

definition vote_defined :: "actor \<Rightarrow> (string \<rightharpoonup> int) \<Rightarrow> (string \<times> real) list \<Rightarrow> bool" where
  "vote_defined s E target =
     list_all (\<lambda>(v, target_v). current_x s v \<noteq> None \<and> E v \<noteq> None \<and> \<not> isl (eta s v target_v))
       target"

text \<open>
  The vote that \<open>act\<close> stores for an action, when its computation does not raise.
\<close>

definition vote_of ::
  "actor \<Rightarrow> qmodel \<Rightarrow> (string \<Rightarrow> real) \<Rightarrow> (string \<times> real) list \<Rightarrow> action \<Rightarrow> real" where
  "vote_of s model zsign target A =
     projr (action_vote s (effect model A (current_x s)) zsign target 0)"

text \<open>
  \<^verbatim>\<open>CartModel\<close> of \<^verbatim>\<open>src/example_cart.py\<close>: three actions on the one control \<open>F\<close>,
  whose direction is the effect on both \<open>x\<close> and \<open>v\<close>. The lookup
  \<^verbatim>\<open>qualitative_action['F']\<close> is defined on each of the three actions.
\<close>

definition cart_model :: qmodel where
  "cart_model =
     \<lparr>actions = (\<lambda>numerical_state. [[(''F'', - 1)], [(''F'', 0)], [(''F'', 1)]]),
      effect = (\<lambda>qualitative_action numerical_state.
                  [''x'' \<mapsto> the (map_of qualitative_action ''F''),
                   ''v'' \<mapsto> the (map_of qualitative_action ''F'')])\<rparr>"

text \<open>
  The seven entries that a variable has in the dictionaries of an actor, and the
  extremum that lines 55-59 and 68-72 leave for a sample \<open>v\<close>: the larger of the stored
  magnitude, if any, and \<open>\<bar>v\<bar>\<close>.
\<close>

type_synonym entries =
  "real option \<times> real option \<times> real option \<times> real option \<times> real option \<times> real option \<times>
   real option"

definition entries :: "actor \<Rightarrow> string \<Rightarrow> entries" where
  "entries s k =
     (current_x s k, current_v s k, current_a s k,
      max_v_pos s k, max_v_neg s k, max_a_pos s k, max_a_neg s k)"

definition raised :: "real option \<Rightarrow> real \<Rightarrow> real option" where
  "raised old v = Some (case old of None \<Rightarrow> \<bar>v\<bar> | Some m \<Rightarrow> max m \<bar>v\<bar>)"

declare time_to_goal.simps [simp del]
declare time_to_goal_fl.simps [simp del]

section \<open>Properties of the kinematic solver\<close>

text \<open>
  Claim C3. A new actor observes \<open>x\<close> at position 0 (whatever the \<open>dt\<close> of that first
  call) and then \<open>observe({'x': 1.0}, dt=1.0)\<close>. The inferred velocity is 1, the
  learned maximal positive velocity is 1, no acceleration extremum is stored (so both
  default to 1), the speed at the goal \<open>sqrt (1\<^sup>2 + 2 * 1 * 1)\<close> exceeds the cruise speed
  1, and \<open>eta('x', 2.0)\<close> returns exactly 1.
\<close>

theorem eta_scenario_unit_velocity:
  "let s = snd (observe (snd (observe init [(''x'', 0)] dt0)) [(''x'', 1)] 1)
   in current_x s ''x'' = Some 1 \<and> current_v s ''x'' = Some 1 \<and>
      max_v_pos s ''x'' = Some 1 \<and> max_v_neg s ''x'' = None \<and>
      max_a_pos s ''x'' = None \<and> max_a_neg s ''x'' = None \<and>
      sqrt (1\<^sup>2 + 2 * 1 * 1) > (1::real) \<and>
      eta s ''x'' 2 = time_to_goal 1 1 1 1 1 \<and>
      eta s ''x'' 2 = Inr 1"
  by (simp add: observe_var_def update_max_def init_def eta_def get_or_def
      time_to_goal.simps[of 1 1] Let_def)




text \<open>
  The solver with float exceptions agrees with the exact one when no power is out of
  range, and unfolds as the source does when line 158 does not raise.
\<close>

lemma time_to_goal_fl_recursive:
  assumes "v0 < 0" and "\<not> ovf (v0\<^sup>2)" and "acc \<noteq> 0"
  shows "time_to_goal_fl ovf d v0 v1 acc dcc =
     ((case fst (time_to_goal_fl ovf (d + v0\<^sup>2 / (2 * acc)) 0 v1 acc dcc) of
         Inl e \<Rightarrow> Inl e
       | Inr t' \<Rightarrow> Inr (- v0 / acc + t')),
      (d, v0, v1, acc, dcc) # snd (time_to_goal_fl ovf (d + v0\<^sup>2 / (2 * acc)) 0 v1 acc dcc))"
  using assms
  by (simp add: time_to_goal_fl.simps[of ovf d v0] Let_def case_prod_beta split: sum.splits)

lemma time_to_goal_fl_exact:
  "fst (time_to_goal_fl (\<lambda>x. False) d v0 v1 acc dcc) = time_to_goal d v0 v1 acc dcc"
proof -
  have base: "fst (time_to_goal_fl (\<lambda>x. False) e w v1 acc dcc) = time_to_goal e w v1 acc dcc"
    if "0 \<le> w" for e w
    using that by (simp add: time_to_goal_fl.simps[of _ e w] time_to_goal.simps[of e w] Let_def)
  show ?thesis
  proof (cases "0 \<le> v0")
    case True
    then show ?thesis
      by (rule base)
  next
    case False
    show ?thesis
    proof (cases "acc = 0")
      case True
      then show ?thesis
        using False by (simp add: time_to_goal_fl.simps[of _ d v0] time_to_goal.simps[of d v0])
    next
      case acc: False
      have "v0 < 0"
        using False by simp
      then have "fst (time_to_goal_fl (\<lambda>x. False) d v0 v1 acc dcc) =
          (case fst (time_to_goal_fl (\<lambda>x. False) (d + v0\<^sup>2 / (2 * acc)) 0 v1 acc dcc) of
             Inl e \<Rightarrow> Inl e
           | Inr t' \<Rightarrow> Inr (- v0 / acc + t'))"
        using acc time_to_goal_fl_recursive[where ovf = "\<lambda>x. False" and ?v0.0 = v0 and acc = acc]
        by simp
      then show ?thesis
        using False acc base[of 0 "d + v0\<^sup>2 / (2 * acc)"]
        by (simp add: time_to_goal.simps[of d v0] Let_def split: sum.splits)
    qed
  qed
qed

lemma time_to_goal_fl_overflow:
  assumes "v0 < 0" and "ovf (v0\<^sup>2)"
  shows "time_to_goal_fl ovf d v0 v1 acc dcc = (Inl OverflowError, [(d, v0, v1, acc, dcc)])"
  using assms by (simp add: time_to_goal_fl.simps[of ovf d v0])

text \<open>
  Claim C5, as the code has it. A call with \<open>v0 < 0\<close> for which line 158 does not
  raise (the power \<open>v0**2\<close> is in range and \<open>acc \<noteq> 0\<close>) causes exactly two
  invocations: itself and one recursive call with distance \<open>dist + v0\<^sup>2 / (2 * acc)\<close>
  and initial velocity 0, whose result it returns with the stopping time
  \<open>- v0 / acc\<close> added; that call causes no further invocation, so it takes the branch
  \<open>v0 \<ge> 0\<close>. With \<open>v0 < 0\<close> and \<open>v0**2\<close> out of range line 158 raises OverflowError,
  and with \<open>v0**2\<close> in range and \<open>acc = 0\<close> it raises ZeroDivisionError; in both
  cases there is no recursive call. A call with \<open>v0 \<ge> 0\<close> makes none. In every case
  at most two invocations are nested, and the function is total. All this holds for
  every predicate \<open>ovf\<close>.
\<close>

theorem time_to_goal_recursion_depth:
  "(v0 < 0 \<and> \<not> ovf (v0\<^sup>2) \<and> acc \<noteq> 0 \<longrightarrow>
      snd (time_to_goal_fl ovf d v0 v1 acc dcc) =
        [(d, v0, v1, acc, dcc), (d + v0\<^sup>2 / (2 * acc), 0, v1, acc, dcc)] \<and>
      snd (time_to_goal_fl ovf (d + v0\<^sup>2 / (2 * acc)) 0 v1 acc dcc) =
        [(d + v0\<^sup>2 / (2 * acc), 0, v1, acc, dcc)] \<and>
      fst (time_to_goal_fl ovf d v0 v1 acc dcc) =
        (case fst (time_to_goal_fl ovf (d + v0\<^sup>2 / (2 * acc)) 0 v1 acc dcc) of
           Inl e \<Rightarrow> Inl e
         | Inr t' \<Rightarrow> Inr (- v0 / acc + t'))) \<and>
   (v0 < 0 \<and> ovf (v0\<^sup>2) \<longrightarrow>
      time_to_goal_fl ovf d v0 v1 acc dcc = (Inl OverflowError, [(d, v0, v1, acc, dcc)])) \<and>
   (v0 < 0 \<and> \<not> ovf (v0\<^sup>2) \<and> acc = 0 \<longrightarrow>
      time_to_goal_fl ovf d v0 v1 acc dcc = (Inl ZeroDivisionError, [(d, v0, v1, acc, dcc)])) \<and>
   (0 \<le> v0 \<longrightarrow> snd (time_to_goal_fl ovf d v0 v1 acc dcc) = [(d, v0, v1, acc, dcc)]) \<and>
   length (snd (time_to_goal_fl ovf d v0 v1 acc dcc)) \<le> 2"
proof -
  have inner: "snd (time_to_goal_fl ovf d' 0 v1 acc dcc) = [(d', 0, v1, acc, dcc)]" for d'
    by (simp add: time_to_goal_fl.simps[of ovf d' 0])
  have 1: "snd (time_to_goal_fl ovf d v0 v1 acc dcc) =
        [(d, v0, v1, acc, dcc), (d + v0\<^sup>2 / (2 * acc), 0, v1, acc, dcc)]"
    if "v0 < 0" "\<not> ovf (v0\<^sup>2)" "acc \<noteq> 0"
    using that time_to_goal_fl_recursive[where ovf = ovf and ?v0.0 = v0 and acc = acc] inner
    by simp
  have 2: "fst (time_to_goal_fl ovf d v0 v1 acc dcc) =
        (case fst (time_to_goal_fl ovf (d + v0\<^sup>2 / (2 * acc)) 0 v1 acc dcc) of
           Inl e \<Rightarrow> Inl e
         | Inr t' \<Rightarrow> Inr (- v0 / acc + t'))"
    if "v0 < 0" "\<not> ovf (v0\<^sup>2)" "acc \<noteq> 0"
    using that time_to_goal_fl_recursive[where ovf = ovf and ?v0.0 = v0 and acc = acc]
    by simp
  have 3: "time_to_goal_fl ovf d v0 v1 acc dcc = (Inl OverflowError, [(d, v0, v1, acc, dcc)])"
    if "v0 < 0" "ovf (v0\<^sup>2)"
    using that by (simp add: time_to_goal_fl.simps[of ovf d v0])
  have 4: "time_to_goal_fl ovf d v0 v1 acc dcc = (Inl ZeroDivisionError, [(d, v0, v1, acc, dcc)])"
    if "v0 < 0" "\<not> ovf (v0\<^sup>2)" "acc = 0"
    using that by (simp add: time_to_goal_fl.simps[of ovf d v0])
  have 5: "snd (time_to_goal_fl ovf d v0 v1 acc dcc) = [(d, v0, v1, acc, dcc)]"
    if "0 \<le> v0"
    using that by (simp add: time_to_goal_fl.simps[of ovf d v0])
  have 6: "length (snd (time_to_goal_fl ovf d v0 v1 acc dcc)) \<le> 2"
  proof (cases "0 \<le> v0")
    case True
    then show ?thesis using 5 by simp
  next
    case False
    then show ?thesis
      using 1 3 4 by (cases "ovf (v0\<^sup>2)"; cases "acc = 0") simp_all
  qed
  show ?thesis
    using 1 2 3 4 5 6 inner by blast
qed

theorem time_to_goal_recursion_depth_witness:
  "(- 1 :: real) < 0 \<and> \<not> double_overflows ((- 1)\<^sup>2) \<and> (2::real) \<noteq> 0 \<and>
   time_to_goal_fl double_overflows 3 (- 1) 1 2 1 =
     (Inr 4, [(3, - 1, 1, 2, 1), (13 / 4, 0, 1, 2, 1)]) \<and>
   snd (time_to_goal_fl double_overflows (13 / 4) 0 1 2 1) = [(13 / 4, 0, 1, 2, 1)]"
proof -
  have o: "\<not> double_overflows 1" "\<not> double_overflows 0"
    by (simp_all add: double_overflows_def)
  have i: "time_to_goal_fl double_overflows (13 / 4) 0 1 2 1 = (Inr (7 / 2), [(13 / 4, 0, 1, 2, 1)])"
    using o by (simp add: time_to_goal_fl.simps[of _ "13 / 4" 0] Let_def)
  have "time_to_goal_fl double_overflows 3 (- 1) 1 2 1 =
     (Inr 4, [(3, - 1, 1, 2, 1), (13 / 4, 0, 1, 2, 1)])"
    using o i by (simp add: time_to_goal_fl.simps[of _ 3 "- 1"] Let_def)
  then show ?thesis
    using time_to_goal_recursion_depth[of "- 1" double_overflows 2 3 1 1] o i by simp
qed

text \<open>
  The claim as worded fails when the power of line 158 overflows. After
  \<open>observe({'x': 0.0}, 1.0)\<close> and \<open>observe({'x': -2.0**600}, 1.0)\<close> the call
  \<open>eta('x', 0.0)\<close> invokes the solver with distance \<open>2 ^ 600\<close>, initial velocity
  \<open>- 2 ^ 600 < 0\<close> and the defaults 1 for cruise speed, acceleration and deceleration;
  the only invocation is that call, which raises OverflowError before line 160,
  although \<open>acc = 1\<close>.
\<close>

theorem time_to_goal_overflow_no_recursive_call:
  "(- (2 ^ 600) :: real) < 0 \<and> (1::real) \<noteq> 0 \<and>
   time_to_goal_fl double_overflows (2 ^ 600) (- (2 ^ 600)) 1 1 1 =
     (Inl OverflowError, [(2 ^ 600, - (2 ^ 600), 1, 1, 1)])"
proof -
  have a: "(- (2 ^ 600) :: real) < 0"
    by simp
  have b: "double_overflows ((- (2 ^ 600))\<^sup>2)"
    by (simp add: double_overflows_def)
  show ?thesis
    by (intro conjI) (rule a, simp,
      rule time_to_goal_fl_overflow[where ovf = double_overflows and ?v0.0 = "- (2 ^ 600)", OF a b])
qed

text \<open>
  Claim C6. For a variable whose last position \<open>x\<close> is recorded, \<open>eta\<close> at the target
  \<open>x\<close> returns exactly 0, and for a target \<open>x1 < x\<close> it returns \<open>time_to_goal\<close> of
  the mirrored problem: distance \<open>- (x1 - x)\<close>, initial velocity the negated last
  velocity (0 when none is recorded), cruise speed the learned maximal negative
  velocity, acceleration the learned maximal negative acceleration and deceleration
  the learned maximal positive acceleration (each 1 when not learned).
\<close>

theorem eta_zero_and_mirrored:
  assumes "current_x s variable = Some x"
  shows "eta s variable x = Inr 0 \<and>
         (x1 < x \<longrightarrow>
            eta s variable x1 =
              time_to_goal (- (x1 - x)) (- get_or (current_v s) variable 0)
                (get_or (max_v_neg s) variable 1)
                (get_or (max_a_neg s) variable 1)
                (get_or (max_a_pos s) variable 1))"
  using assms by (simp add: eta_def Let_def)

theorem eta_zero_and_mirrored_witness:
  "(let s = \<lparr>current_x = [''x'' \<mapsto> 3], current_v = [''x'' \<mapsto> - 2],
              current_a = Map.empty, max_v_pos = Map.empty, max_v_neg = [''x'' \<mapsto> 4],
              max_a_pos = [''x'' \<mapsto> 5], max_a_neg = Map.empty\<rparr>
    in current_x s ''x'' = Some 3 \<and> eta s ''x'' 3 = Inr 0 \<and> (1::real) < 3 \<and>
       eta s ''x'' 1 = time_to_goal 2 2 4 1 5)"
proof -
  let ?s = "\<lparr>current_x = [''x'' \<mapsto> 3::real], current_v = [''x'' \<mapsto> - 2::real],
              current_a = Map.empty, max_v_pos = Map.empty, max_v_neg = [''x'' \<mapsto> 4::real],
              max_a_pos = [''x'' \<mapsto> 5::real], max_a_neg = Map.empty\<rparr>"
  have "current_x ?s ''x'' = Some 3"
    by simp
  from eta_zero_and_mirrored[OF this, of 1] show ?thesis
    by (simp add: get_or_def)
qed

section \<open>Properties of the estimator\<close>

lemma grown_refl: "grown a a"
  by (simp add: grown_def split: option.splits)

lemma grown_trans: "grown a b \<Longrightarrow> grown b c \<Longrightarrow> grown a c"
  by (auto simp: grown_def split: option.splits)

lemma update_max_grown: "grown (M k') (update_max M k v k')"
  by (auto simp: grown_def update_max_def split: option.splits)

lemma update_max_same: "\<exists>m. update_max M k v k = Some m \<and> \<bar>v\<bar> \<le> m"
  by (auto simp: update_max_def split: option.splits)

lemma update_max_other: "k' \<noteq> k \<Longrightarrow> update_max M k v k' = M k'"
  by (auto simp: update_max_def split: option.splits)

lemma update_max_cases: "update_max M k v k' = Some m \<Longrightarrow> M k' = Some m \<or> m = \<bar>v\<bar>"
  by (auto simp: update_max_def split: option.splits if_splits)

text \<open>What one iteration of \<open>observe\<close> leaves in each dictionary.\<close>

lemma observe_var_fields_None:
  assumes "observe_var s k x dt = Inr s'" and "current_x s k = None"
  shows "s' = s\<lparr>current_x := (current_x s)(k \<mapsto> x)\<rparr>"
  using assms by (simp add: observe_var_def)

lemma observe_var_fields:
  assumes "observe_var s k x dt = Inr s'" and "current_x s k = Some x0"
  shows "dt \<noteq> 0"
    and "max_v_pos s' =
           (if 0 < (x - x0) / dt then update_max (max_v_pos s) k ((x - x0) / dt)
            else max_v_pos s)"
    and "max_v_neg s' =
           (if (x - x0) / dt < 0 then update_max (max_v_neg s) k ((x - x0) / dt)
            else max_v_neg s)"
    and "max_a_pos s' =
           (case current_v s k of
              None \<Rightarrow> max_a_pos s
            | Some v0 \<Rightarrow>
                if 0 < ((x - x0) / dt - v0) / dt
                then update_max (max_a_pos s) k (((x - x0) / dt - v0) / dt)
                else max_a_pos s)"
    and "max_a_neg s' =
           (case current_v s k of
              None \<Rightarrow> max_a_neg s
            | Some v0 \<Rightarrow>
                if ((x - x0) / dt - v0) / dt < 0
                then update_max (max_a_neg s) k (((x - x0) / dt - v0) / dt)
                else max_a_neg s)"
    and "current_v s' = (current_v s)(k \<mapsto> (x - x0) / dt)"
    and "current_x s' = (current_x s)(k \<mapsto> x)"
  using assms
  by (auto simp: observe_var_def Let_def split: option.splits if_splits)

lemma observe_var_extrema:
  assumes "observe_var s k x dt = Inr s'"
  shows "grown (max_v_pos s k') (max_v_pos s' k')"
    and "grown (max_v_neg s k') (max_v_neg s' k')"
    and "grown (max_a_pos s k') (max_a_pos s' k')"
    and "grown (max_a_neg s k') (max_a_neg s' k')"
proof -
  show "grown (max_v_pos s k') (max_v_pos s' k')"
  proof (cases "current_x s k")
    case None
    from observe_var_fields_None[OF assms None] show ?thesis
      by (simp add: grown_refl)
  next
    case (Some x0)
    show ?thesis
      unfolding observe_var_fields(2)[OF assms Some]
      by (simp add: grown_refl update_max_grown)
  qed
  show "grown (max_v_neg s k') (max_v_neg s' k')"
  proof (cases "current_x s k")
    case None
    from observe_var_fields_None[OF assms None] show ?thesis
      by (simp add: grown_refl)
  next
    case (Some x0)
    show ?thesis
      unfolding observe_var_fields(3)[OF assms Some]
      by (simp add: grown_refl update_max_grown)
  qed
  show "grown (max_a_pos s k') (max_a_pos s' k')"
  proof (cases "current_x s k")
    case None
    from observe_var_fields_None[OF assms None] show ?thesis
      by (simp add: grown_refl)
  next
    case (Some x0)
    show ?thesis
      unfolding observe_var_fields(4)[OF assms Some]
      by (simp add: grown_refl update_max_grown split: option.splits)
  qed
  show "grown (max_a_neg s k') (max_a_neg s' k')"
  proof (cases "current_x s k")
    case None
    from observe_var_fields_None[OF assms None] show ?thesis
      by (simp add: grown_refl)
  next
    case (Some x0)
    show ?thesis
      unfolding observe_var_fields(5)[OF assms Some]
      by (simp add: grown_refl update_max_grown split: option.splits)
  qed
qed

lemma observe_extrema:
  "grown (max_v_pos s k') (max_v_pos (snd (observe s ns dt)) k') \<and>
   grown (max_v_neg s k') (max_v_neg (snd (observe s ns dt)) k') \<and>
   grown (max_a_pos s k') (max_a_pos (snd (observe s ns dt)) k') \<and>
   grown (max_a_neg s k') (max_a_neg (snd (observe s ns dt)) k')"
proof (induction ns arbitrary: s)
  case Nil
  show ?case
    by (simp add: grown_refl)
next
  case (Cons p ns)
  obtain k x where p: "p = (k, x)"
    by (cases p)
  show ?case
  proof (cases "observe_var s k x dt")
    case (Inl e)
    then show ?thesis
      by (simp add: p grown_refl)
  next
    case (Inr s1)
    from observe_var_extrema[OF Inr, of k'] Cons.IH[of s1]
    show ?thesis
      by (auto simp: p Inr intro: grown_trans)
  qed
qed

lemma run_calls_extrema:
  "Reset \<notin> set calls \<Longrightarrow>
   grown (max_v_pos s k') (max_v_pos (run_calls s calls) k') \<and>
   grown (max_v_neg s k') (max_v_neg (run_calls s calls) k') \<and>
   grown (max_a_pos s k') (max_a_pos (run_calls s calls) k') \<and>
   grown (max_a_neg s k') (max_a_neg (run_calls s calls) k')"
proof (induction calls arbitrary: s)
  case Nil
  show ?case
    by (simp add: grown_refl)
next
  case (Cons c cs)
  have step: "grown (max_v_pos s k') (max_v_pos (apply_call s c) k') \<and>
              grown (max_v_neg s k') (max_v_neg (apply_call s c) k') \<and>
              grown (max_a_pos s k') (max_a_pos (apply_call s c) k') \<and>
              grown (max_a_neg s k') (max_a_neg (apply_call s c) k')"
  proof (cases c)
    case (Observe ns dt)
    then show ?thesis
      using observe_extrema[of s k' ns dt] by simp
  next
    case Restart
    then show ?thesis
      by (simp add: restart_def grown_refl)
  next
    case Reset
    then show ?thesis
      using Cons.prems by simp
  qed
  from Cons.prems have "Reset \<notin> set cs"
    by simp
  from Cons.IH[OF this, of "apply_call s c"] step show ?case
    by (auto intro: grown_trans)
qed

text \<open>
  Claim C7. Over every sequence of \<open>observe\<close> and \<open>restart\<close> calls without a
  \<open>reset\<close>, whether or not a call raises, and for every variable, each of the four
  stored extrema has not shrunk: an entry that was stored is still stored, with a
  magnitude at least as large. \<open>restart\<close> leaves the four dictionaries of extrema as
  they are and empties the dictionaries of positions, velocities and accelerations.
\<close>

theorem extrema_never_shrink:
  "(Reset \<notin> set calls \<longrightarrow>
      grown (max_v_pos s variable) (max_v_pos (run_calls s calls) variable) \<and>
      grown (max_v_neg s variable) (max_v_neg (run_calls s calls) variable) \<and>
      grown (max_a_pos s variable) (max_a_pos (run_calls s calls) variable) \<and>
      grown (max_a_neg s variable) (max_a_neg (run_calls s calls) variable)) \<and>
   max_v_pos (restart s) = max_v_pos s \<and> max_v_neg (restart s) = max_v_neg s \<and>
   max_a_pos (restart s) = max_a_pos s \<and> max_a_neg (restart s) = max_a_neg s \<and>
   current_x (restart s) = Map.empty \<and> current_v (restart s) = Map.empty \<and>
   current_a (restart s) = Map.empty"
  using run_calls_extrema[of calls s variable] by (simp add: restart_def)

theorem extrema_never_shrink_witness:
  "Reset \<notin> set [Restart, Observe [(''x'', 5)] 1, Observe [(''x'', 6)] 1, Observe [(''x'', 9)] 1] \<and>
   max_v_pos (run_calls init [Observe [(''x'', 0)] 1, Observe [(''x'', 2)] 1]) ''x'' = Some 2 \<and>
   max_v_pos (run_calls (run_calls init [Observe [(''x'', 0)] 1, Observe [(''x'', 2)] 1])
                [Restart, Observe [(''x'', 5)] 1, Observe [(''x'', 6)] 1, Observe [(''x'', 9)] 1])
     ''x'' = Some 3 \<and>
   grown (Some 2) (Some 3)"
  using extrema_never_shrink[of
      "[Restart, Observe [(''x'', 5)] 1, Observe [(''x'', 6)] 1, Observe [(''x'', 9)] 1]"
      "run_calls init [Observe [(''x'', 0)] 1, Observe [(''x'', 2)] 1]" "''x''"]
  by (simp add: observe_var_def update_max_def init_def restart_def grown_def Let_def)

text \<open>When \<open>observe\<close> raises: the division of line 42 with \<open>dt = 0\<close>, and nothing else.\<close>

lemma observe_var_zero_dt:
  "observe_var s k x 0 =
     (if current_x s k \<noteq> None then Inl ZeroDivisionError
      else Inr (s\<lparr>current_x := (current_x s)(k \<mapsto> x)\<rparr>))"
  by (auto simp: observe_var_def split: option.splits)

lemma observe_var_nonzero_dt: "dt \<noteq> 0 \<Longrightarrow> \<exists>s'. observe_var s k x dt = Inr s'"
  by (auto simp: observe_var_def Let_def split: option.splits)

lemma observe_zero_dt:
  "\<exists>p\<in>set ns. current_x s (fst p) \<noteq> None \<Longrightarrow> fst (observe s ns 0) = Some ZeroDivisionError"
proof (induction ns arbitrary: s)
  case Nil
  then show ?case
    by simp
next
  case (Cons q ns)
  obtain k x where q: "q = (k, x)"
    by (cases q)
  show ?case
  proof (cases "current_x s k \<noteq> None")
    case True
    then show ?thesis
      by (simp add: q observe_var_zero_dt)
  next
    case False
    let ?s1 = "s\<lparr>current_x := (current_x s)(k \<mapsto> x)\<rparr>"
    from Cons.prems False q have "\<exists>p\<in>set ns. current_x s (fst p) \<noteq> None"
      by auto
    then have "\<exists>p\<in>set ns. current_x ?s1 (fst p) \<noteq> None"
      by auto
    from Cons.IH[OF this] False show ?thesis
      by (simp add: q observe_var_zero_dt)
  qed
qed

lemma observe_nonzero_dt: "dt \<noteq> 0 \<Longrightarrow> fst (observe s ns dt) = None"
proof (induction ns arbitrary: s)
  case Nil
  then show ?case
    by simp
next
  case (Cons q ns)
  obtain k x where q: "q = (k, x)"
    by (cases q)
  from observe_var_nonzero_dt[OF Cons.prems, of s k x]
  obtain s' where "observe_var s k x dt = Inr s'"
    by blast
  then show ?case
    using Cons.IH[OF Cons.prems, of s'] by (simp add: q)
qed

text \<open>
  What \<open>observe\<close> leaves in the entries of each variable: an iteration changes only
  the entries of its own variable, and these depend only on that variable's entries.
\<close>

lemma update_max_at: "update_max M k v k = raised (M k) v"
  by (auto simp: update_max_def raised_def split: option.splits)

lemma observe_var_other_entries:
  assumes "observe_var s k x dt = Inr s1" and "k' \<noteq> k"
  shows "entries s1 k' = entries s k'"
proof (cases "current_x s k")
  case None
  from observe_var_fields_None[OF assms(1) None] assms(2) show ?thesis
    by (simp add: entries_def)
next
  case (Some x0)
  have "current_a s1 k' = current_a s k'"
    using assms Some by (auto simp: observe_var_def Let_def split: option.splits if_splits)
  then show ?thesis
    using assms(2) observe_var_fields[OF assms(1) Some]
    by (simp add: entries_def update_max_other split: option.splits)
qed

lemma observe_var_own_entries:
  assumes "observe_var s k x dt = Inr s1"
  shows "current_x s1 k = Some x"
    and "current_v s1 k =
           (case current_x s k of None \<Rightarrow> current_v s k | Some x0 \<Rightarrow> Some ((x - x0) / dt))"
    and "current_a s1 k =
           (case current_x s k of
              None \<Rightarrow> current_a s k
            | Some x0 \<Rightarrow>
                (case current_v s k of
                   None \<Rightarrow> current_a s k
                 | Some v0 \<Rightarrow> Some (((x - x0) / dt - v0) / dt)))"
    and "max_v_pos s1 k =
           (case current_x s k of
              None \<Rightarrow> max_v_pos s k
            | Some x0 \<Rightarrow>
                if 0 < (x - x0) / dt then raised (max_v_pos s k) ((x - x0) / dt)
                else max_v_pos s k)"
    and "max_v_neg s1 k =
           (case current_x s k of
              None \<Rightarrow> max_v_neg s k
            | Some x0 \<Rightarrow>
                if (x - x0) / dt < 0 then raised (max_v_neg s k) ((x - x0) / dt)
                else max_v_neg s k)"
    and "max_a_pos s1 k =
           (case current_x s k of
              None \<Rightarrow> max_a_pos s k
            | Some x0 \<Rightarrow>
                (case current_v s k of
                   None \<Rightarrow> max_a_pos s k
                 | Some v0 \<Rightarrow>
                     if 0 < ((x - x0) / dt - v0) / dt
                     then raised (max_a_pos s k) (((x - x0) / dt - v0) / dt)
                     else max_a_pos s k))"
    and "max_a_neg s1 k =
           (case current_x s k of
              None \<Rightarrow> max_a_neg s k
            | Some x0 \<Rightarrow>
                (case current_v s k of
                   None \<Rightarrow> max_a_neg s k
                 | Some v0 \<Rightarrow>
                     if ((x - x0) / dt - v0) / dt < 0
                     then raised (max_a_neg s k) (((x - x0) / dt - v0) / dt)
                     else max_a_neg s k))"
proof -
  show "current_x s1 k = Some x"
    using assms by (auto simp: observe_var_def Let_def split: option.splits if_splits)
  show "current_v s1 k =
           (case current_x s k of None \<Rightarrow> current_v s k | Some x0 \<Rightarrow> Some ((x - x0) / dt))"
    using assms by (auto simp: observe_var_def Let_def split: option.splits if_splits)
  show "current_a s1 k =
           (case current_x s k of
              None \<Rightarrow> current_a s k
            | Some x0 \<Rightarrow>
                (case current_v s k of
                   None \<Rightarrow> current_a s k
                 | Some v0 \<Rightarrow> Some (((x - x0) / dt - v0) / dt)))"
    using assms by (auto simp: observe_var_def Let_def split: option.splits if_splits)
  show "max_v_pos s1 k =
           (case current_x s k of
              None \<Rightarrow> max_v_pos s k
            | Some x0 \<Rightarrow>
                if 0 < (x - x0) / dt then raised (max_v_pos s k) ((x - x0) / dt)
                else max_v_pos s k)"
  proof (cases "current_x s k")
    case None
    from observe_var_fields_None[OF assms None] None show ?thesis by simp
  next
    case (Some x0)
    from observe_var_fields(2)[OF assms Some] Some show ?thesis
      by (simp add: update_max_at)
  qed
  show "max_v_neg s1 k =
           (case current_x s k of
              None \<Rightarrow> max_v_neg s k
            | Some x0 \<Rightarrow>
                if (x - x0) / dt < 0 then raised (max_v_neg s k) ((x - x0) / dt)
                else max_v_neg s k)"
  proof (cases "current_x s k")
    case None
    from observe_var_fields_None[OF assms None] None show ?thesis by simp
  next
    case (Some x0)
    from observe_var_fields(3)[OF assms Some] Some show ?thesis
      by (simp add: update_max_at)
  qed
  show "max_a_pos s1 k =
           (case current_x s k of
              None \<Rightarrow> max_a_pos s k
            | Some x0 \<Rightarrow>
                (case current_v s k of
                   None \<Rightarrow> max_a_pos s k
                 | Some v0 \<Rightarrow>
                     if 0 < ((x - x0) / dt - v0) / dt
                     then raised (max_a_pos s k) (((x - x0) / dt - v0) / dt)
                     else max_a_pos s k))"
  proof (cases "current_x s k")
    case None
    from observe_var_fields_None[OF assms None] None show ?thesis by simp
  next
    case (Some x0)
    from observe_var_fields(4)[OF assms Some] Some show ?thesis
      by (simp add: update_max_at split: option.splits)
  qed
  show "max_a_neg s1 k =
           (case current_x s k of
              None \<Rightarrow> max_a_neg s k
            | Some x0 \<Rightarrow>
                (case current_v s k of
                   None \<Rightarrow> max_a_neg s k
                 | Some v0 \<Rightarrow>
                     if ((x - x0) / dt - v0) / dt < 0
                     then raised (max_a_neg s k) (((x - x0) / dt - v0) / dt)
                     else max_a_neg s k))"
  proof (cases "current_x s k")
    case None
    from observe_var_fields_None[OF assms None] None show ?thesis by simp
  next
    case (Some x0)
    from observe_var_fields(5)[OF assms Some] Some show ?thesis
      by (simp add: update_max_at split: option.splits)
  qed
qed

lemma observe_var_local:
  assumes "entries s k = entries t k"
    and "observe_var s k x dt = Inr s1" and "observe_var t k x dt = Inr t1"
  shows "entries s1 k = entries t1 k"
proof -
  have e: "current_x s k = current_x t k" "current_v s k = current_v t k"
    "current_a s k = current_a t k" "max_v_pos s k = max_v_pos t k"
    "max_v_neg s k = max_v_neg t k" "max_a_pos s k = max_a_pos t k"
    "max_a_neg s k = max_a_neg t k"
    using assms(1) by (simp_all add: entries_def)
  show ?thesis
    unfolding entries_def observe_var_own_entries[OF assms(2)]
      observe_var_own_entries[OF assms(3)] e
    by (rule refl)
qed

lemma observe_untouched:
  "k \<notin> fst ` set ns \<Longrightarrow> entries (snd (observe s ns dt)) k = entries s k"
proof (induction ns arbitrary: s)
  case Nil
  show ?case by simp
next
  case (Cons p ns)
  obtain k' x' where p: "p = (k', x')" by (cases p)
  show ?case
  proof (cases "observe_var s k' x' dt")
    case (Inl e)
    then show ?thesis by (simp add: p)
  next
    case (Inr s1)
    from Cons.prems p have "k \<noteq> k'" "k \<notin> fst ` set ns" by auto
    from observe_var_other_entries[OF Inr this(1)] Cons.IH[OF this(2), of s1]
    show ?thesis by (simp add: p Inr)
  qed
qed

lemma observe_own:
  assumes "dt \<noteq> 0"
  shows "distinct (map fst ns) \<Longrightarrow> (k, x) \<in> set ns \<Longrightarrow>
         \<exists>s1. observe_var s k x dt = Inr s1 \<and> entries (snd (observe s ns dt)) k = entries s1 k"
proof (induction ns arbitrary: s)
  case Nil
  then show ?case by simp
next
  case (Cons p ns)
  obtain k' x' where p: "p = (k', x')" by (cases p)
  from observe_var_nonzero_dt[OF assms, of s k' x'] obtain s' where s': "observe_var s k' x' dt = Inr s'"
    by blast
  have fin: "snd (observe s (p # ns) dt) = snd (observe s' ns dt)"
    by (simp add: p s')
  show ?case
  proof (cases "k' = k")
    case True
    have notin: "k \<notin> fst ` set ns"
      using Cons.prems(1) True p by simp
    then have "x' = x"
      using Cons.prems(2) True p by (auto simp: image_iff)
    then show ?thesis
      using True s' observe_untouched[OF notin, of s' dt] fin by simp
  next
    case False
    then have mem: "(k, x) \<in> set ns" and dis: "distinct (map fst ns)"
      using Cons.prems p by auto
    from Cons.IH[OF dis mem, of s'] obtain s2 where
      s2: "observe_var s' k x dt = Inr s2" "entries (snd (observe s' ns dt)) k = entries s2 k"
      by blast
    from observe_var_nonzero_dt[OF assms, of s k x] obtain s1 where s1: "observe_var s k x dt = Inr s1"
      by blast
    have "entries s' k = entries s k"
      using observe_var_other_entries[OF s'] False by auto
    from observe_var_local[OF this s2(1) s1] s2(2) s1 fin show ?thesis
      by simp
  qed
qed

lemma observe_zero_dt_state:
  "current_v (snd (observe s ns 0)) = current_v s \<and>
   current_a (snd (observe s ns 0)) = current_a s \<and>
   max_v_pos (snd (observe s ns 0)) = max_v_pos s \<and>
   max_v_neg (snd (observe s ns 0)) = max_v_neg s \<and>
   max_a_pos (snd (observe s ns 0)) = max_a_pos s \<and>
   max_a_neg (snd (observe s ns 0)) = max_a_neg s \<and>
   (\<forall>k. current_x s k \<noteq> None \<longrightarrow> current_x (snd (observe s ns 0)) k = current_x s k)"
proof (induction ns arbitrary: s)
  case Nil
  show ?case by simp
next
  case (Cons p ns)
  obtain k x where p: "p = (k, x)" by (cases p)
  show ?case
  proof (cases "current_x s k \<noteq> None")
    case True
    then show ?thesis by (simp add: p observe_var_zero_dt)
  next
    case False
    let ?s1 = "s\<lparr>current_x := (current_x s)(k \<mapsto> x)\<rparr>"
    have fin: "snd (observe s (p # ns) 0) = snd (observe ?s1 ns 0)"
      using False by (simp add: p observe_var_zero_dt)
    from Cons.IH[of ?s1] False show ?thesis
      unfolding fin by auto
  qed
qed

text \<open>
  Claim C8, as the code has it. \<open>observe\<close> validates nothing. With \<open>dt = 0\<close> and a
  variable of \<open>numerical_state\<close> that has a recorded position, the call raises
  ZeroDivisionError (the division of line 42); velocities, accelerations and extrema
  are then as before the call, and so are the positions that were recorded before it.
  With any \<open>dt \<noteq> 0\<close>, negative ones included, the call raises nothing, and for every
  item \<open>(variable, x)\<close> of the dictionary it stores: the position \<open>x\<close>; the velocity
  \<open>(x - x0) / dt\<close> when a position \<open>x0\<close> was recorded; the acceleration
  \<open>(v - v0) / dt\<close> when also a velocity \<open>v0\<close> was recorded; and, for a velocity or
  acceleration that is not 0, the extremum of its sign raised to at least its
  magnitude. Entries that the rules above do not set, and all entries of variables
  that are not in the dictionary, stay as they were.
\<close>

theorem observe_raises_only_for_zero_dt:
  "(let s' = snd (observe s numerical_state dt) in
    (dt = 0 \<and> (\<exists>p\<in>set numerical_state. current_x s (fst p) \<noteq> None) \<longrightarrow>
       fst (observe s numerical_state dt) = Some ZeroDivisionError \<and>
       current_v s' = current_v s \<and> current_a s' = current_a s \<and>
       max_v_pos s' = max_v_pos s \<and> max_v_neg s' = max_v_neg s \<and>
       max_a_pos s' = max_a_pos s \<and> max_a_neg s' = max_a_neg s \<and>
       (\<forall>k. current_x s k \<noteq> None \<longrightarrow> current_x s' k = current_x s k)) \<and>
    (dt \<noteq> 0 \<longrightarrow> fst (observe s numerical_state dt) = None) \<and>
    (dt \<noteq> 0 \<and> distinct (map fst numerical_state) \<and> (variable, x) \<in> set numerical_state \<longrightarrow>
       current_x s' variable = Some x \<and>
       current_v s' variable =
         (case current_x s variable of
            None \<Rightarrow> current_v s variable
          | Some x0 \<Rightarrow> Some ((x - x0) / dt)) \<and>
       current_a s' variable =
         (case current_x s variable of
            None \<Rightarrow> current_a s variable
          | Some x0 \<Rightarrow>
              (case current_v s variable of
                 None \<Rightarrow> current_a s variable
               | Some v0 \<Rightarrow> Some (((x - x0) / dt - v0) / dt))) \<and>
       max_v_pos s' variable =
         (case current_x s variable of
            None \<Rightarrow> max_v_pos s variable
          | Some x0 \<Rightarrow>
              if 0 < (x - x0) / dt then raised (max_v_pos s variable) ((x - x0) / dt)
              else max_v_pos s variable) \<and>
       max_v_neg s' variable =
         (case current_x s variable of
            None \<Rightarrow> max_v_neg s variable
          | Some x0 \<Rightarrow>
              if (x - x0) / dt < 0 then raised (max_v_neg s variable) ((x - x0) / dt)
              else max_v_neg s variable) \<and>
       max_a_pos s' variable =
         (case current_x s variable of
            None \<Rightarrow> max_a_pos s variable
          | Some x0 \<Rightarrow>
              (case current_v s variable of
                 None \<Rightarrow> max_a_pos s variable
               | Some v0 \<Rightarrow>
                   if 0 < ((x - x0) / dt - v0) / dt
                   then raised (max_a_pos s variable) (((x - x0) / dt - v0) / dt)
                   else max_a_pos s variable)) \<and>
       max_a_neg s' variable =
         (case current_x s variable of
            None \<Rightarrow> max_a_neg s variable
          | Some x0 \<Rightarrow>
              (case current_v s variable of
                 None \<Rightarrow> max_a_neg s variable
               | Some v0 \<Rightarrow>
                   if ((x - x0) / dt - v0) / dt < 0
                   then raised (max_a_neg s variable) (((x - x0) / dt - v0) / dt)
                   else max_a_neg s variable))) \<and>
    (variable \<notin> fst ` set numerical_state \<longrightarrow> entries s' variable = entries s variable))"
proof -
  define s' where "s' = snd (observe s numerical_state dt)"
  have zero: "fst (observe s numerical_state dt) = Some ZeroDivisionError"
    if "dt = 0" "\<exists>p\<in>set numerical_state. current_x s (fst p) \<noteq> None"
    using that observe_zero_dt[of numerical_state s] by simp
  have zstate: "current_v s' = current_v s \<and> current_a s' = current_a s \<and>
       max_v_pos s' = max_v_pos s \<and> max_v_neg s' = max_v_neg s \<and>
       max_a_pos s' = max_a_pos s \<and> max_a_neg s' = max_a_neg s \<and>
       (\<forall>k. current_x s k \<noteq> None \<longrightarrow> current_x s' k = current_x s k)"
    if "dt = 0"
    using that observe_zero_dt_state[of s numerical_state] by (simp add: s'_def)
  have nonzero: "fst (observe s numerical_state dt) = None" if "dt \<noteq> 0"
    using that by (rule observe_nonzero_dt)
  have other: "entries s' variable = entries s variable"
    if "variable \<notin> fst ` set numerical_state"
    using that unfolding s'_def by (rule observe_untouched)
  have own: "current_x s' variable = Some x \<and>
       current_v s' variable =
         (case current_x s variable of
            None \<Rightarrow> current_v s variable
          | Some x0 \<Rightarrow> Some ((x - x0) / dt)) \<and>
       current_a s' variable =
         (case current_x s variable of
            None \<Rightarrow> current_a s variable
          | Some x0 \<Rightarrow>
              (case current_v s variable of
                 None \<Rightarrow> current_a s variable
               | Some v0 \<Rightarrow> Some (((x - x0) / dt - v0) / dt))) \<and>
       max_v_pos s' variable =
         (case current_x s variable of
            None \<Rightarrow> max_v_pos s variable
          | Some x0 \<Rightarrow>
              if 0 < (x - x0) / dt then raised (max_v_pos s variable) ((x - x0) / dt)
              else max_v_pos s variable) \<and>
       max_v_neg s' variable =
         (case current_x s variable of
            None \<Rightarrow> max_v_neg s variable
          | Some x0 \<Rightarrow>
              if (x - x0) / dt < 0 then raised (max_v_neg s variable) ((x - x0) / dt)
              else max_v_neg s variable) \<and>
       max_a_pos s' variable =
         (case current_x s variable of
            None \<Rightarrow> max_a_pos s variable
          | Some x0 \<Rightarrow>
              (case current_v s variable of
                 None \<Rightarrow> max_a_pos s variable
               | Some v0 \<Rightarrow>
                   if 0 < ((x - x0) / dt - v0) / dt
                   then raised (max_a_pos s variable) (((x - x0) / dt - v0) / dt)
                   else max_a_pos s variable)) \<and>
       max_a_neg s' variable =
         (case current_x s variable of
            None \<Rightarrow> max_a_neg s variable
          | Some x0 \<Rightarrow>
              (case current_v s variable of
                 None \<Rightarrow> max_a_neg s variable
               | Some v0 \<Rightarrow>
                   if ((x - x0) / dt - v0) / dt < 0
                   then raised (max_a_neg s variable) (((x - x0) / dt - v0) / dt)
                   else max_a_neg s variable))"
    if "dt \<noteq> 0" "distinct (map fst numerical_state)" "(variable, x) \<in> set numerical_state"
  proof -
    from observe_own[OF that] obtain s1 where
      s1: "observe_var s variable x dt = Inr s1" and e: "entries s' variable = entries s1 variable"
      unfolding s'_def by blast
    from e have f: "current_x s' variable = current_x s1 variable"
      "current_v s' variable = current_v s1 variable"
      "current_a s' variable = current_a s1 variable"
      "max_v_pos s' variable = max_v_pos s1 variable"
      "max_v_neg s' variable = max_v_neg s1 variable"
      "max_a_pos s' variable = max_a_pos s1 variable"
      "max_a_neg s' variable = max_a_neg s1 variable"
      by (simp_all add: entries_def)
    show ?thesis
      unfolding f observe_var_own_entries[OF s1] by simp
  qed
  show ?thesis
    unfolding Let_def s'_def[symmetric] using zero zstate nonzero other own by blast
qed

theorem observe_raises_only_for_zero_dt_witness:
  "(let s = snd (observe init [(''x'', 0)] 1);
        failed = observe s [(''y'', 7), (''x'', 1)] 0;
        s' = snd (observe s [(''y'', 7), (''x'', 1)] (- 2))
    in current_x s ''x'' = Some 0 \<and>
       fst failed = Some ZeroDivisionError \<and> current_x (snd failed) ''x'' = Some 0 \<and>
       current_v (snd failed) = current_v s \<and> max_v_neg (snd failed) = max_v_neg s \<and>
       (- 2 :: real) \<noteq> 0 \<and> distinct (map fst [(''y'', 7 :: real), (''x'', 1)]) \<and>
       fst (observe s [(''y'', 7), (''x'', 1)] (- 2)) = None \<and>
       current_x s' ''x'' = Some 1 \<and> current_v s' ''x'' = Some (- 1 / 2) \<and>
       current_a s' ''x'' = None \<and> max_v_pos s' ''x'' = None \<and>
       max_v_neg s' ''x'' = Some (1 / 2) \<and>
       current_x s' ''y'' = Some 7 \<and> current_v s' ''y'' = None)"
proof -
  let ?s = "init\<lparr>current_x := [''x'' \<mapsto> 0]\<rparr>"
  have s: "snd (observe init [(''x'', 0)] 1) = ?s"
    by (simp add: observe_var_def init_def)
  note a = observe_raises_only_for_zero_dt[of ?s "[(''y'', 7), (''x'', 1)]" 0 "''x''" 1]
  note b = observe_raises_only_for_zero_dt[of ?s "[(''y'', 7), (''x'', 1)]" "- 2" "''x''" 1]
  have w: "current_x ?s ''x'' = Some 0 \<and>
       fst (observe ?s [(''y'', 7), (''x'', 1)] 0) = Some ZeroDivisionError \<and>
       current_x (snd (observe ?s [(''y'', 7), (''x'', 1)] 0)) ''x'' = Some 0 \<and>
       current_v (snd (observe ?s [(''y'', 7), (''x'', 1)] 0)) = current_v ?s \<and>
       max_v_neg (snd (observe ?s [(''y'', 7), (''x'', 1)] 0)) = max_v_neg ?s \<and>
       (- 2 :: real) \<noteq> 0 \<and> distinct (map fst [(''y'', 7 :: real), (''x'', 1)]) \<and>
       fst (observe ?s [(''y'', 7), (''x'', 1)] (- 2)) = None \<and>
       current_x (snd (observe ?s [(''y'', 7), (''x'', 1)] (- 2))) ''x'' = Some 1 \<and>
       current_v (snd (observe ?s [(''y'', 7), (''x'', 1)] (- 2))) ''x'' = Some (- 1 / 2) \<and>
       current_a (snd (observe ?s [(''y'', 7), (''x'', 1)] (- 2))) ''x'' = None \<and>
       max_v_pos (snd (observe ?s [(''y'', 7), (''x'', 1)] (- 2))) ''x'' = None \<and>
       max_v_neg (snd (observe ?s [(''y'', 7), (''x'', 1)] (- 2))) ''x'' = Some (1 / 2) \<and>
       current_x (snd (observe ?s [(''y'', 7), (''x'', 1)] (- 2))) ''y'' = Some 7 \<and>
       current_v (snd (observe ?s [(''y'', 7), (''x'', 1)] (- 2))) ''y'' = None"
    by (simp add: observe_var_def update_max_def init_def Let_def)
  show ?thesis
    unfolding Let_def s using a b by - (rule w)
qed

text \<open>
  The claim as worded fails for a negative \<open>dt\<close>: with \<open>x\<close> recorded at 0,
  \<open>observe({'x': 1}, dt=-1)\<close> raises nothing and stores the velocity \<open>-1\<close> and the
  maximal negative velocity 1.
\<close>

theorem observe_negative_dt_raises_nothing:
  "(- 1 :: real) \<le> 0 \<and>
   current_x (snd (observe init [(''x'', 0)] 1)) ''x'' = Some 0 \<and>
   observe (snd (observe init [(''x'', 0)] 1)) [(''x'', 1)] (- 1) =
     (None, \<lparr>current_x = [''x'' \<mapsto> 1], current_v = [''x'' \<mapsto> - 1], current_a = Map.empty,
              max_v_pos = Map.empty, max_v_neg = [''x'' \<mapsto> 1],
              max_a_pos = Map.empty, max_a_neg = Map.empty\<rparr>)"
  by (simp add: observe_var_def update_max_def init_def Let_def)

text \<open>The two invariants hold for a new actor and are kept by every call.\<close>

lemma observe_var_velocity_within:
  assumes "observe_var s k x dt = Inr s'" and "velocity_within s"
  shows "velocity_within s'"
proof (cases "current_x s k")
  case None
  from observe_var_fields_None[OF assms(1) None] assms(2) show ?thesis
    by (simp add: velocity_within_def)
next
  case (Some x0)
  define v where "v = (x - x0) / dt"
  note f = observe_var_fields[OF assms(1) Some, folded v_def]
  show ?thesis
    unfolding velocity_within_def
  proof (intro allI impI)
    fix k' w
    assume w: "current_v s' k' = Some w"
    show "(0 < w \<longrightarrow> (\<exists>m. max_v_pos s' k' = Some m \<and> w \<le> m)) \<and>
          (w < 0 \<longrightarrow> (\<exists>m. max_v_neg s' k' = Some m \<and> \<bar>w\<bar> \<le> m))"
    proof (cases "k' = k")
      case True
      then have "w = v"
        using w f(6) by simp
      then show ?thesis
        using True f(2,3) update_max_same[of "max_v_pos s" k v]
          update_max_same[of "max_v_neg s" k v]
        by auto
    next
      case False
      then have "current_v s k' = Some w"
        using w f(6) by simp
      then show ?thesis
        using False assms(2) f(2,3) by (auto simp: velocity_within_def update_max_other)
    qed
  qed
qed

lemma update_max_keeps_positive:
  assumes "\<forall>k m. M k = Some m \<longrightarrow> 0 < m" and "v \<noteq> 0"
  shows "\<forall>k' m. update_max M k v k' = Some m \<longrightarrow> 0 < m"
  using assms update_max_cases[of M k v] by fastforce

lemma positive_if_update:
  assumes "\<forall>k m. M k = Some m \<longrightarrow> 0 < m" and "c \<Longrightarrow> v \<noteq> 0"
  shows "\<forall>k' m. (if c then update_max M k v else M) k' = Some m \<longrightarrow> 0 < m"
  using assms update_max_keeps_positive[of M v k] by (cases c) simp_all

lemma positive_case_update:
  assumes "\<forall>k m. M k = Some m \<longrightarrow> 0 < m" and "\<And>v0. c v0 \<Longrightarrow> a v0 \<noteq> 0"
  shows "\<forall>k' m. (case cv of
                   None \<Rightarrow> M
                 | Some v0 \<Rightarrow> if c v0 then update_max M k (a v0) else M) k' = Some m
           \<longrightarrow> 0 < m"
proof (cases cv)
  case None
  then show ?thesis
    using assms(1) by simp
next
  case (Some v0)
  show ?thesis
    unfolding Some option.case
    by (rule positive_if_update[OF assms(1)]) (rule assms(2))
qed

lemma observe_var_extrema_positive:
  assumes "observe_var s k x dt = Inr s'" and "extrema_positive s"
  shows "extrema_positive s'"
proof (cases "current_x s k")
  case None
  from observe_var_fields_None[OF assms(1) None] assms(2) show ?thesis
    by (simp add: extrema_positive_def)
next
  case (Some x0)
  note f = observe_var_fields[OF assms(1) Some]
  have p: "\<forall>k m. max_v_pos s k = Some m \<longrightarrow> 0 < m"
    "\<forall>k m. max_v_neg s k = Some m \<longrightarrow> 0 < m"
    "\<forall>k m. max_a_pos s k = Some m \<longrightarrow> 0 < m"
    "\<forall>k m. max_a_neg s k = Some m \<longrightarrow> 0 < m"
    using assms(2) by (auto simp: extrema_positive_def)
  have 1: "\<forall>k m. max_v_pos s' k = Some m \<longrightarrow> 0 < m"
    unfolding f(2) by (rule positive_if_update[OF p(1)]) auto
  have 2: "\<forall>k m. max_v_neg s' k = Some m \<longrightarrow> 0 < m"
    unfolding f(3) by (rule positive_if_update[OF p(2)]) auto
  have 3: "\<forall>k m. max_a_pos s' k = Some m \<longrightarrow> 0 < m"
    unfolding f(4) by (rule positive_case_update[OF p(3)]) auto
  have 4: "\<forall>k m. max_a_neg s' k = Some m \<longrightarrow> 0 < m"
    unfolding f(5) by (rule positive_case_update[OF p(4)]) auto
  show ?thesis
    unfolding extrema_positive_def using 1 2 3 4 by blast
qed

lemma observe_invariants:
  "velocity_within s \<Longrightarrow> extrema_positive s \<Longrightarrow>
   velocity_within (snd (observe s ns dt)) \<and> extrema_positive (snd (observe s ns dt))"
proof (induction ns arbitrary: s)
  case Nil
  then show ?case
    by simp
next
  case (Cons p ns)
  obtain k x where p: "p = (k, x)"
    by (cases p)
  show ?case
  proof (cases "observe_var s k x dt")
    case (Inl e)
    then show ?thesis
      using Cons.prems by (simp add: p)
  next
    case (Inr s1)
    have "velocity_within s1" and "extrema_positive s1"
      using observe_var_velocity_within[OF Inr] observe_var_extrema_positive[OF Inr] Cons.prems
      by auto
    from Cons.IH[OF this] show ?thesis
      by (simp add: p Inr)
  qed
qed

lemma run_calls_invariants:
  "velocity_within s \<Longrightarrow> extrema_positive s \<Longrightarrow>
   velocity_within (run_calls s calls) \<and> extrema_positive (run_calls s calls)"
proof (induction calls arbitrary: s)
  case Nil
  then show ?case
    by simp
next
  case (Cons c cs)
  have "velocity_within (apply_call s c) \<and> extrema_positive (apply_call s c)"
  proof (cases c)
    case (Observe ns dt)
    then show ?thesis
      using observe_invariants[OF Cons.prems] by simp
  next
    case Restart
    then show ?thesis
      using Cons.prems by (simp add: restart_def velocity_within_def extrema_positive_def)
  next
    case Reset
    then show ?thesis
      by (simp add: reset_def velocity_within_def extrema_positive_def)
  qed
  then show ?case
    using Cons.IH by simp
qed

lemma init_invariants: "velocity_within init" "extrema_positive init"
  by (simp_all add: init_def velocity_within_def extrema_positive_def)

lemma reachable_invariants:
  "velocity_within (run_calls init calls)" "extrema_positive (run_calls init calls)"
  using run_calls_invariants[OF init_invariants, of calls] by simp_all

text \<open>
  Claim C9. Let \<open>s\<close> be the state of an actor after any sequence of \<open>reset\<close>,
  \<open>restart\<close> and \<open>observe\<close> calls (with any \<open>dt\<close>, so in particular with positive
  ones). If variable \<open>k\<close> has the recorded velocity \<open>v > 0\<close>, its maximal positive
  velocity is stored and is at least \<open>v\<close>; if \<open>v < 0\<close>, its maximal negative velocity
  is stored and is at least \<open>\<bar>v\<bar>\<close>. Hence in both calls that \<open>eta\<close> makes to
  \<open>time_to_goal\<close> the initial velocity passed does not exceed the cruise speed passed
  with it.
\<close>

theorem velocity_within_cruise_speed:
  assumes "s = run_calls init calls"
  shows "(current_v s k = Some v \<and> 0 < v \<longrightarrow> (\<exists>m. max_v_pos s k = Some m \<and> v \<le> m)) \<and>
         (current_v s k = Some v \<and> v < 0 \<longrightarrow> (\<exists>m. max_v_neg s k = Some m \<and> \<bar>v\<bar> \<le> m)) \<and>
         (current_x s k = Some x \<and> x < x1 \<longrightarrow>
            eta s k x1 =
              time_to_goal (x1 - x) (get_or (current_v s) k 0) (get_or (max_v_pos s) k 1)
                (get_or (max_a_pos s) k 1) (get_or (max_a_neg s) k 1) \<and>
            get_or (current_v s) k 0 \<le> get_or (max_v_pos s) k 1) \<and>
         (current_x s k = Some x \<and> x1 < x \<longrightarrow>
            eta s k x1 =
              time_to_goal (- (x1 - x)) (- get_or (current_v s) k 0) (get_or (max_v_neg s) k 1)
                (get_or (max_a_neg s) k 1) (get_or (max_a_pos s) k 1) \<and>
            - get_or (current_v s) k 0 \<le> get_or (max_v_neg s) k 1)"
proof -
  have inv: "velocity_within s" "extrema_positive s"
    using reachable_invariants[of calls] assms by simp_all
  have a: "get_or (current_v s) k 0 \<le> get_or (max_v_pos s) k 1"
    using inv unfolding velocity_within_def extrema_positive_def get_or_def
    by (cases "current_v s k"; cases "max_v_pos s k"; fastforce)
  have b: "- get_or (current_v s) k 0 \<le> get_or (max_v_neg s) k 1"
    using inv unfolding velocity_within_def extrema_positive_def get_or_def
    by (cases "current_v s k"; cases "max_v_neg s k"; fastforce)
  show ?thesis
    using inv(1) a b by (auto simp: velocity_within_def eta_def Let_def)
qed

theorem velocity_within_cruise_speed_witness:
  "(let s = run_calls init [Observe [(''x'', 0)] 1, Observe [(''x'', 2)] 1]
    in current_v s ''x'' = Some 2 \<and> (0::real) < 2 \<and> max_v_pos s ''x'' = Some 2 \<and>
       current_x s ''x'' = Some 2 \<and> (2::real) < 5 \<and>
       eta s ''x'' 5 = time_to_goal 3 2 2 1 1 \<and> (2::real) \<le> 2 \<and>
       (0::real) < 2 \<and> eta s ''x'' 0 = time_to_goal 2 (- 2) 1 1 1 \<and> (- 2 :: real) \<le> 1)"
  using velocity_within_cruise_speed[of
      "run_calls init [Observe [(''x'', 0)] 1, Observe [(''x'', 2)] 1]"
      "[Observe [(''x'', 0)] 1, Observe [(''x'', 2)] 1]" "''x''" 2 2 5]
    velocity_within_cruise_speed[of
      "run_calls init [Observe [(''x'', 0)] 1, Observe [(''x'', 2)] 1]"
      "[Observe [(''x'', 0)] 1, Observe [(''x'', 2)] 1]" "''x''" 2 2 0]
  by (simp add: observe_var_def update_max_def init_def get_or_def Let_def)

section \<open>Properties of the action selection\<close>


lemma action_vote_iff:
  "action_vote s E z target vote = Inr r \<longleftrightarrow>
     vote_defined s E target \<and> r = vote + spec_vote s E z target"
proof (induction target arbitrary: vote)
  case Nil
  show ?case by (auto simp: vote_defined_def spec_vote_def)
next
  case (Cons p target)
  obtain k tv where p: "p = (k, tv)" by (cases p)
  show ?case
  proof (cases "current_x s k")
    case None
    then show ?thesis by (simp add: p vote_defined_def)
  next
    case (Some x)
    note x = this
    show ?thesis
    proof (cases "E k")
      case None
      then show ?thesis using x by (simp add: p vote_defined_def)
    next
      case (Some e)
      note e = this
      show ?thesis
      proof (cases "eta s k tv")
        case (Inl err)
        then show ?thesis using x e by (simp add: p vote_defined_def)
      next
        case (Inr t)
        define c where "c = copysign_one (z k) (tv - x) * real_of_int (if \<bar>e\<bar> \<le> 1 then e else 0) * t"
        have vd: "vote_defined s E (p # target) = vote_defined s E target"
          using x e Inr by (simp add: p vote_defined_def)
        have sv: "spec_vote s E z (p # target) = c + spec_vote s E z target"
          using x e Inr by (simp add: p spec_vote_def c_def)
        have st: "action_vote s E z (p # target) vote = action_vote s E z target (vote + c)"
          using x e Inr by (simp add: p Let_def c_def)
        show ?thesis unfolding vd sv st Cons.IH by auto
      qed
    qed
  qed
qed

lemma act_votes_Inr:
  "act_votes s m z target as acc0 = Inr vs \<longleftrightarrow>
     (\<forall>A\<in>set as. \<not> isl (action_vote s (effect m A (current_x s)) z target 0)) \<and>
     vs = acc0 @ map (\<lambda>A. (A, projr (action_vote s (effect m A (current_x s)) z target 0),
                             action_rank A 0)) as"
proof (induction as arbitrary: acc0)
  case Nil
  show ?case by auto
next
  case (Cons A as)
  show ?case
  proof (cases "action_vote s (effect m A (current_x s)) z target 0")
    case (Inl e)
    then show ?thesis by simp
  next
    case (Inr r)
    then show ?thesis using Cons.IH by simp
  qed
qed

lemma action_vote_zsign:
  "action_vote s E z target vote = action_vote s E z' target vote"
proof (induction target arbitrary: vote)
  case Nil
  show ?case by simp
next
  case (Cons p target)
  obtain k tv where p: "p = (k, tv)" by (cases p)
  show ?case
  proof (cases "current_x s k")
    case None
    then show ?thesis by (simp add: p)
  next
    case (Some x)
    note x = this
    show ?thesis
    proof (cases "E k")
      case None
      then show ?thesis using x by (simp add: p)
    next
      case (Some e)
      note e = this
      show ?thesis
      proof (cases "eta s k tv")
        case (Inl err)
        then show ?thesis using x e by (simp add: p)
      next
        case (Inr t)
        define c where
          "c = (\<lambda>zs. copysign_one (zs k) (tv - x) * real_of_int (if \<bar>e\<bar> \<le> 1 then e else 0) * t)"
        have st: "action_vote s E zs (p # target) vote = action_vote s E zs target (vote + c zs)"
          for zs :: "string \<Rightarrow> real"
          using x e Inr by (simp add: p Let_def c_def)
        have ceq: "c z = c z'"
        proof (cases "tv = x")
          case True
          then have "eta s k tv = Inr 0"
            using x by (simp add: eta_def)
          then have "t = 0"
            using Inr by simp
          then show ?thesis
            by (simp add: c_def)
        next
          case False
          then show ?thesis
            by (simp add: c_def copysign_one_def)
        qed
        show ?thesis
          unfolding st ceq by (rule Cons.IH)
      qed
    qed
  qed
qed

lemma act_votes_zsign:
  "act_votes s m z target as acc0 = act_votes s m z' target as acc0"
proof (induction as arbitrary: acc0)
  case Nil
  show ?case by simp
next
  case (Cons A as)
  show ?case
    using Cons.IH action_vote_zsign[of s "effect m A (current_x s)" z target 0 z']
    by (simp split: sum.splits)
qed

text \<open>The head of a stable descending sort is the first element with the greatest key.\<close>

lemma last_filter_holds: "xs \<noteq> [] \<Longrightarrow> P (last xs) \<Longrightarrow> last (filter P xs) = last xs"
  by (induction xs rule: rev_induct) simp_all

lemma sorted_map_last_greatest: "sorted (map f xs) \<Longrightarrow> x \<in> set xs \<Longrightarrow> f x \<le> f (last xs)"
  by (induction xs) (auto split: if_splits)

lemma sorted_reverse_head:
  fixes key :: "'a \<Rightarrow> 'k::linorder"
  assumes "xs \<noteq> []"
  shows "\<exists>pre a post. xs = pre @ a # post \<and> sorted_reverse key xs = a # tl (sorted_reverse key xs) \<and>
           (\<forall>y\<in>set xs. key y \<le> key a) \<and> (\<forall>y\<in>set pre. key y \<noteq> key a)"
proof -
  define ys where "ys = sort_key key (rev xs)"
  define a where "a = last ys"
  define P where "P = (\<lambda>y. key y = key a)"
  have ne: "ys \<noteq> []"
  proof
    assume "ys = []"
    then have "length (sort_key key (rev xs)) = 0" by (simp add: ys_def)
    then show False using assms by simp
  qed
  have srt: "sorted (map key ys)" by (simp add: ys_def)
  have st: "set ys = set xs" by (simp add: ys_def)
  have mx: "\<forall>y\<in>set xs. key y \<le> key a"
    using sorted_map_last_greatest[OF srt] st by (simp add: a_def)
  have "P a" by (simp add: P_def)
  then have "last (filter P ys) = a" using last_filter_holds[OF ne, of P] by (simp add: a_def)
  moreover have "filter P ys = filter P (rev xs)"
    unfolding P_def ys_def by (rule sort_key_stable)
  moreover have "filter P (rev xs) = rev (filter P xs)" by (simp add: rev_filter)
  ultimately have ha: "hd (filter P xs) = a" by (simp add: last_rev)
  have "a \<in> set xs" using last_in_set[OF ne] st by (simp add: a_def)
  then have "filter P xs \<noteq> []" using \<open>P a\<close> by (auto simp: filter_empty_conv)
  then have "filter P xs = a # tl (filter P xs)" using ha by (cases "filter P xs") simp_all
  then obtain pre post where sp: "xs = pre @ a # post" and npre: "\<forall>u\<in>set pre. \<not> P u"
    unfolding filter_eq_Cons_iff by blast
  have "sorted_reverse key xs = rev ys" by (simp add: sorted_reverse_def ys_def)
  moreover have "rev ys \<noteq> []" using ne by simp
  moreover have "hd (rev ys) = a" by (simp add: hd_rev a_def)
  ultimately have hdv: "sorted_reverse key xs = a # tl (sorted_reverse key xs)"
    by (cases "rev ys") simp_all
  from npre have "\<forall>y\<in>set pre. key y \<noteq> key a" by (simp add: P_def)
  with sp mx hdv show ?thesis by blast
qed

lemma act_votes_list:
  assumes "\<forall>A\<in>set as. \<not> isl (action_vote s (effect m A (current_x s)) z target 0)"
  shows "act_votes s m z target as [] = Inr (map (\<lambda>A. (A, vote_of s m z target A, action_rank A 0)) as)"
  using assms act_votes_Inr[of s m z target as "[]"] by (simp add: vote_of_def)

text \<open>
  In every state reachable from a new actor the ETA is computed without an
  exception, so the votes are computed whenever each target variable has a position
  and each action's effect covers the target variables.
\<close>

lemma time_to_goal_returns:
  assumes "0 < d" and "0 < acc" and "0 < v1"
  shows "\<exists>t. time_to_goal d v0 v1 acc dcc = Inr t"
proof -
  have base: "\<exists>t. time_to_goal e w v1 acc dcc = Inr t" if "0 \<le> w" and "0 \<le> e" for e w
  proof -
    have "0 \<le> w\<^sup>2 + 2 * acc * e"
      using that assms(2) by simp
    then have "\<not> w\<^sup>2 + 2 * acc * e < 0"
      by simp
    then show ?thesis
      using that assms by (simp add: time_to_goal.simps[of e w] Let_def)
  qed
  show ?thesis
  proof (cases "0 \<le> v0")
    case True
    then show ?thesis
      using base[of v0 d] assms(1) by simp
  next
    case False
    have "0 \<le> d + v0\<^sup>2 / (2 * acc)"
      using assms by simp
    from base[OF _ this, of 0]
    obtain t' where "time_to_goal (d + v0\<^sup>2 / (2 * acc)) 0 v1 acc dcc = Inr t'"
      by auto
    then show ?thesis
      using False assms by (simp add: time_to_goal.simps[of d v0] Let_def)
  qed
qed

lemma get_or_positive:
  "(\<forall>k m. M k = Some m \<longrightarrow> 0 < m) \<Longrightarrow> 0 < get_or M k (1::real)"
  by (cases "M k") (auto simp: get_or_def)

lemma eta_returns:
  assumes "extrema_positive s" and "current_x s k = Some x"
  shows "\<exists>t. eta s k x1 = Inr t"
proof -
  have p: "0 < get_or (max_v_pos s) k 1" "0 < get_or (max_v_neg s) k 1"
    "0 < get_or (max_a_pos s) k 1" "0 < get_or (max_a_neg s) k 1"
    using assms(1) by (auto simp: extrema_positive_def intro!: get_or_positive)
  consider "x < x1" | "x1 < x" | "x1 = x"
    by linarith
  then show ?thesis
  proof cases
    case 1
    then show ?thesis
      using assms(2) time_to_goal_returns[OF _ p(3) p(1), of "x1 - x"]
      by (simp add: eta_def Let_def)
  next
    case 2
    then show ?thesis
      using assms(2) time_to_goal_returns[OF _ p(4) p(2), of "- (x1 - x)"]
      by (simp add: eta_def Let_def)
  next
    case 3
    then show ?thesis
      using assms(2) by (simp add: eta_def)
  qed
qed

lemma vote_defined_reachable:
  assumes "extrema_positive s"
    and "\<forall>p\<in>set target. current_x s (fst p) \<noteq> None \<and> E (fst p) \<noteq> None"
  shows "vote_defined s E target"
  unfolding vote_defined_def list_all_iff
proof
  fix p
  assume p: "p \<in> set target"
  obtain k tv where kt: "p = (k, tv)"
    by (cases p)
  from assms(2) p kt obtain x where "current_x s k = Some x" and "E k \<noteq> None"
    by fastforce
  moreover from eta_returns[OF assms(1) this(1), of tv] have "\<not> isl (eta s k tv)"
    by auto
  ultimately show "case p of (v, target_v) \<Rightarrow>
      current_x s v \<noteq> None \<and> E v \<noteq> None \<and> \<not> isl (eta s v target_v)"
    by (simp add: kt)
qed

lemma votes_computed_in_reachable_states:
  assumes "s = run_calls init calls"
    and "actions model (current_x s) \<noteq> []"
    and "\<forall>A\<in>set (actions model (current_x s)). \<forall>p\<in>set target.
           current_x s (fst p) \<noteq> None \<and> effect model A (current_x s) (fst p) \<noteq> None"
  shows "\<forall>A\<in>set (actions model (current_x s)).
           \<not> isl (action_vote s (effect model A (current_x s)) zsign target 0)"
proof
  fix A
  assume A: "A \<in> set (actions model (current_x s))"
  have "extrema_positive s"
    using reachable_invariants(2)[of calls] assms(1) by simp
  from vote_defined_reachable[OF this, of target "effect model A (current_x s)"] assms(3) A
  have "vote_defined s (effect model A (current_x s)) target"
    by blast
  then have "action_vote s (effect model A (current_x s)) zsign target 0 =
        Inr (0 + spec_vote s (effect model A (current_x s)) zsign target)"
    using action_vote_iff by blast
  then show "\<not> isl (action_vote s (effect model A (current_x s)) zsign target 0)"
    by simp
qed

text \<open>
  The selection in exact arithmetic, where the keys are totally ordered. Let the model
  return a non-empty list of actions and let no vote computation raise (see
  \<open>votes_computed_in_reachable_states\<close>). Then \<open>act\<close> returns an action \<open>A\<close> of the
  list such that every action \<open>B\<close> of the list has a smaller vote, or the same vote and
  a rank at most that of \<open>A\<close>, and no action before \<open>A\<close> in the model's enumeration has
  the same vote and the same rank. This does not carry over to the floats of the code
  when an ETA overflows to infinity, since a NaN vote makes the keys unordered.
\<close>

lemma act_selects_first_greatest_exact:
  assumes "actions model (current_x s) \<noteq> []"
    and "\<forall>A\<in>set (actions model (current_x s)).
           \<not> isl (action_vote s (effect model A (current_x s)) zsign target 0)"
  shows "\<exists>pre A post.
           actions model (current_x s) = pre @ A # post \<and>
           act s model zsign target = Inr A \<and>
           (\<forall>B\<in>set (actions model (current_x s)).
              vote_of s model zsign target B < vote_of s model zsign target A \<or>
              vote_of s model zsign target B = vote_of s model zsign target A \<and>
              action_rank B 0 \<le> action_rank A 0) \<and>
           (\<forall>B\<in>set pre.
              \<not> (vote_of s model zsign target B = vote_of s model zsign target A \<and>
                 action_rank B 0 = action_rank A 0))"
proof -
  define as where "as = actions model (current_x s)"
  define f where "f = (\<lambda>A. (A, vote_of s model zsign target A, action_rank A 0))"
  define votes where "votes = map f as"
  have av: "act_votes s model zsign target as [] = Inr votes"
    using act_votes_list[of as s model zsign target] assms(2) by (simp add: as_def votes_def f_def)
  have "votes \<noteq> []" using assms(1) by (simp add: votes_def as_def)
  from sorted_reverse_head[OF this, of vote_key]
  obtain pre' a post' where sp: "votes = pre' @ a # post'"
    and hd: "sorted_reverse vote_key votes = a # tl (sorted_reverse vote_key votes)"
    and mx: "\<forall>y\<in>set votes. vote_key y \<le> vote_key a"
    and fst: "\<forall>y\<in>set pre'. vote_key y \<noteq> vote_key a"
    by blast
  from sp obtain pre A post where as: "as = pre @ A # post" and pre': "pre' = map f pre" and a: "a = f A"
    unfolding votes_def by (auto simp: map_eq_append_conv map_eq_Cons_conv)
  have key: "vote_key (f B) = (vote_of s model zsign target B, action_rank B 0)" for B
    by (simp add: vote_key_def f_def)
  have act: "act s model zsign target = Inr A"
  proof -
    have "(case sorted_reverse vote_key votes of
             [] \<Rightarrow> Inl IndexError
           | best # rest \<Rightarrow> Inr (fst best)) = (Inr (fst a) :: error + action)"
      by (subst hd) simp
    then show ?thesis
      unfolding act_def as_def[symmetric] av by (simp add: a f_def)
  qed
  have m: "\<forall>B\<in>set as. vote_of s model zsign target B < vote_of s model zsign target A \<or>
              vote_of s model zsign target B = vote_of s model zsign target A \<and>
              action_rank B 0 \<le> action_rank A 0"
  proof
    fix B assume "B \<in> set as"
    then have "vote_key (f B) \<le> vote_key (f A)" using mx a by (simp add: votes_def)
    then show "vote_of s model zsign target B < vote_of s model zsign target A \<or>
              vote_of s model zsign target B = vote_of s model zsign target A \<and>
              action_rank B 0 \<le> action_rank A 0"
      unfolding key by auto
  qed
  have n: "\<forall>B\<in>set pre. \<not> (vote_of s model zsign target B = vote_of s model zsign target A \<and>
                 action_rank B 0 = action_rank A 0)"
  proof
    fix B assume "B \<in> set pre"
    then have "vote_key (f B) \<noteq> vote_key (f A)" using fst a pre' by simp
    then show "\<not> (vote_of s model zsign target B = vote_of s model zsign target A \<and>
                 action_rank B 0 = action_rank A 0)"
      unfolding key by simp
  qed
  show ?thesis using as act m n unfolding as_def by blast
qed



text \<open>
  Claim C10. For a target variable whose target value equals its recorded position
  and that has an effect, the sign taken at zero distance is whatever
  \<^verbatim>\<open>math.copysign\<close> reads from the zero (\<open>zsign\<close>), the ETA is exactly 0, and the
  iteration of the vote loop for that variable leaves the running vote unchanged: its
  contribution is exactly 0. Hence \<open>act\<close> gives the same result (the same action, or
  the same exception) for any two choices of the signs at zero distance.
\<close>

theorem zero_distance_sign_irrelevant:
  "(current_x s v = Some target_v \<and> E v = Some e \<longrightarrow>
      copysign_one (zsign v) (target_v - target_v) = zsign v \<and>
      eta s v target_v = Inr 0 \<and>
      action_vote s E zsign ((v, target_v) # rest) vote = action_vote s E zsign rest vote) \<and>
   act s model zsign target = act s model zsign' target"
proof -
  have "eta s v target_v = Inr 0" if "current_x s v = Some target_v"
    using that by (simp add: eta_def)
  moreover have "act s model zsign target = act s model zsign' target"
    unfolding act_def using act_votes_zsign[of s model zsign target _ "[]" zsign'] by simp
  ultimately show ?thesis
    by (auto simp: Let_def copysign_one_def)
qed

theorem zero_distance_sign_irrelevant_witness:
  "(let s = snd (observe init [(''x'', - 3), (''v'', 0)] 1);
        target = [(''x'', 0), (''v'', 0)];
        E = effect cart_model [(''F'', 1)] (current_x s)
    in current_x s ''v'' = Some 0 \<and> E ''v'' = Some 1 \<and>
       copysign_one (- 1) (0 - 0) = - 1 \<and> copysign_one 1 (0 - 0) = 1 \<and>
       eta s ''v'' 0 = Inr 0 \<and>
       action_vote s E (\<lambda>variable. - 1) [(''v'', 0)] 5 = Inr 5 \<and>
       act s cart_model (\<lambda>variable. 1) target = Inr [(''F'', 1)] \<and>
       act s cart_model (\<lambda>variable. - 1) target = Inr [(''F'', 1)])"
proof -
  let ?s = "init\<lparr>current_x := [''x'' \<mapsto> - 3, ''v'' \<mapsto> 0]\<rparr>"
  have s: "snd (observe init [(''x'', - 3), (''v'', 0)] 1) = ?s"
    by (simp add: observe_var_def init_def)
  have e: "eta ?s ''x'' 0 = Inr (7 / 2)" "eta ?s ''v'' 0 = Inr 0"
    by (simp_all add: eta_def init_def get_or_def time_to_goal.simps[of 3 0] Let_def)
  have v: "act_votes ?s cart_model (\<lambda>variable. 1) [(''x'', 0), (''v'', 0)]
             (actions cart_model (current_x ?s)) [] =
           Inr [([(''F'', - 1)], - 7 / 2, 1), ([(''F'', 0)], 0, 0), ([(''F'', 1)], 7 / 2, 1)]"
    by (simp add: cart_model_def e copysign_one_def)
  have a: "act ?s cart_model (\<lambda>variable. 1) [(''x'', 0), (''v'', 0)] = Inr [(''F'', 1)]"
    unfolding act_def v by (simp add: sorted_reverse_def vote_key_def)
  note inst = zero_distance_sign_irrelevant[of ?s "''v''" 0
      "effect cart_model [(''F'', 1)] (current_x ?s)" 1 "\<lambda>variable. - 1" "[]" 5
      cart_model "[(''x'', 0), (''v'', 0)]" "\<lambda>variable. 1"]
  have c: "current_x ?s ''v'' = Some 0"
    "effect cart_model [(''F'', 1)] (current_x ?s) ''v'' = Some 1"
    by (simp_all add: cart_model_def)
  have w: "current_x ?s ''v'' = Some 0 \<and>
       effect cart_model [(''F'', 1)] (current_x ?s) ''v'' = Some 1 \<and>
       copysign_one (- 1) (0 - 0) = - 1 \<and> copysign_one 1 (0 - 0) = 1 \<and>
       eta ?s ''v'' 0 = Inr 0 \<and>
       action_vote ?s (effect cart_model [(''F'', 1)] (current_x ?s)) (\<lambda>variable. - 1)
         [(''v'', 0)] 5 = Inr 5 \<and>
       act ?s cart_model (\<lambda>variable. 1) [(''x'', 0), (''v'', 0)] = Inr [(''F'', 1)] \<and>
       act ?s cart_model (\<lambda>variable. - 1) [(''x'', 0), (''v'', 0)] = Inr [(''F'', 1)]"
    using inst c a by (simp add: copysign_one_def)
  show ?thesis
    unfolding Let_def s by (rule w)
qed

end
